theory Spec2Isabelle
  imports Main "HOL-Library.AList" "HOL-Library.Sublist"
begin

section \<open>Saca las Mantecas: a shallow embedding of \<^verbatim>\<open>sacamantecas.py\<close>\<close>

text \<open>
  Python's \<^verbatim>\<open>str\<close> and \<^verbatim>\<open>bytes\<close> values are both modelled as \<^typ>\<open>string\<close>: a
  \<^typ>\<open>char\<close> is one byte of a \<^verbatim>\<open>bytes\<close> object, or one code point below 256 of a
  \<^verbatim>\<open>str\<close>. A \<^verbatim>\<open>dict\<close> is an association list in insertion order; assigning to a key
  that is present keeps its position (\<^const>\<open>AList.update\<close>), as Python does.

  The standard library is not part of the program. What the program needs from it is
  passed in as a parameter (the record \<open>stdlib\<close> below): the network (\<open>urlopen\<close>
  together with \<open>read\<close> and \<open>headers.get_content_charset\<close>), \<open>urlparse\<close> and
  \<open>urlunparse\<close>, the codec registry behind \<open>bytes.decode\<close>, and the tokenizer of
  \<open>html.parser.HTMLParser\<close>, which turns the fed text into calls of the handler
  methods. Every theorem holds for every such library; reference instances that follow
  CPython are defined for the examples only.

  The worksheet of openpyxl is modelled by the cells it holds, with the exceptions that
  its \<^verbatim>\<open>cell\<close> method, the value setter of a cell and \<^verbatim>\<open>get_column_letter\<close>
  raise, as in openpyxl 3.1.
\<close>

type_synonym bytes = string
type_synonym str = string
type_synonym 'v dict = "(string \<times> 'v) list"

datatype exn =
    ConnectionError
  | URLError
  | ValueError string
  | UnicodeDecodeError
  | LookupError
  | TypeError
  | KeyError
  | IllegalCharacterError
  | OtherException string

definition dict_set :: "string \<Rightarrow> 'v \<Rightarrow> 'v dict \<Rightarrow> 'v dict" where
  "dict_set k v d = AList.update k v d"

definition dict_get :: "'v dict \<Rightarrow> string \<Rightarrow> 'v option" where
  "dict_get d k = map_of d k"

subsection \<open>Configuration constants\<close>

definition CONFIG_K_DIV_CLASS :: str where
  "CONFIG_K_DIV_CLASS = ''auth''"

definition CONFIG_V_DIV_CLASS :: str where
  "CONFIG_V_DIV_CLASS = ''titn''"

definition CONFIG_PREFIX :: str where
  "CONFIG_PREFIX = ''[sm] ''"

subsection \<open>String helpers of Python\<close>

text \<open>\<^verbatim>\<open>sub in s\<close> on strings: \<open>sub\<close> occurs in \<open>s\<close> as a contiguous run.\<close>

fun str_contains :: "string \<Rightarrow> string \<Rightarrow> bool" where
  "str_contains sub [] = (sub = [])"
| "str_contains sub (c # cs) = (prefix sub (c # cs) \<or> str_contains sub cs)"

text \<open>\<^verbatim>\<open>str.isspace\<close> on the code points below 256.\<close>

definition isspace :: "char \<Rightarrow> bool" where
  "isspace c = (of_char c \<in> {9, 10, 11, 12, 13, 28, 29, 30, 31, 32, 133, 160 :: int})"

text \<open>\<^verbatim>\<open>s.split()\<close>: the maximal runs of non-whitespace, in order. The first argument
  is the word read so far.\<close>

fun split_acc :: "string \<Rightarrow> string \<Rightarrow> string list" where
  "split_acc w [] = (if w = [] then [] else [w])"
| "split_acc w (c # cs) =
     (if isspace c then (if w = [] then split_acc [] cs else w # split_acc [] cs)
      else split_acc (w @ [c]) cs)"

definition split :: "string \<Rightarrow> string list" where
  "split s = split_acc [] s"

fun join :: "string \<Rightarrow> string list \<Rightarrow> string" where
  "join sep [] = []"
| "join sep [w] = w"
| "join sep (w # ws) = w @ sep @ join sep ws"

text \<open>\<^verbatim>\<open>s.rstrip(':')\<close>: every trailing colon is removed.\<close>

definition rstrip_colon :: "string \<Rightarrow> string" where
  "rstrip_colon s = rev (dropWhile (\<lambda>c. c = CHR '':'') (rev s))"

subsection \<open>LibraryCatalogueHTMLParser\<close>

record parser =
  within_k_tag :: bool
  within_v_tag :: bool
  k_class :: str
  v_class :: str
  current_key :: str
  current_value :: str
  retrieved_metadata :: "str dict"

text \<open>\<^verbatim>\<open>__init__\<close>.\<close>

definition LibraryCatalogueHTMLParser :: "str \<Rightarrow> str \<Rightarrow> parser" where
  "LibraryCatalogueHTMLParser kc vc =
     \<lparr>within_k_tag = False, within_v_tag = False, k_class = kc, v_class = vc,
      current_key = [], current_value = [], retrieved_metadata = []\<rparr>"

text \<open>The key stored when the key buffer is empty: the seven characters \<^verbatim>\<open>[vac\<close>,
  i with acute accent (code point 237), \<^verbatim>\<open>o]\<close>; the Spanish word for empty, in brackets.\<close>

definition empty_key :: str where
  "empty_key = ''[vac'' @ [CHR 0xED] @ ''o]''"

text \<open>An attribute is a pair of a name and a value; the value is \<^verbatim>\<open>None\<close> for an
  attribute written without one (\<^verbatim>\<open><div class>\<close>), and then \<^verbatim>\<open>self.k_class in attr[1]\<close>
  raises \<^verbatim>\<open>TypeError\<close>.\<close>

type_synonym attr = "str \<times> str option"

text \<open>One round of the loop body of \<^verbatim>\<open>handle_starttag\<close>.\<close>

definition handle_attr :: "parser \<Rightarrow> attr \<Rightarrow> exn + parser" where
  "handle_attr p a =
     (if fst a = ''class'' then
        (case snd a of
           None \<Rightarrow> Inl TypeError
         | Some v \<Rightarrow>
             (let p1 = (if str_contains (k_class p) v
                        then p\<lparr>within_k_tag := True, current_key := []\<rparr> else p);
                  p2 = (if str_contains (v_class p1) v
                        then p1\<lparr>within_v_tag := True, current_value := []\<rparr> else p1)
              in Inr p2))
      else Inr p)"

fun handle_attrs :: "parser \<Rightarrow> attr list \<Rightarrow> exn + parser" where
  "handle_attrs p [] = Inr p"
| "handle_attrs p (a # as) =
     (case handle_attr p a of Inl e \<Rightarrow> Inl e | Inr p' \<Rightarrow> handle_attrs p' as)"

definition handle_starttag :: "parser \<Rightarrow> str \<Rightarrow> attr list \<Rightarrow> exn + parser" where
  "handle_starttag p tag attrs = handle_attrs p attrs"

definition handle_endtag :: "parser \<Rightarrow> str \<Rightarrow> parser" where
  "handle_endtag p tag =
     (let p1 = (if within_k_tag p then p\<lparr>within_k_tag := False\<rparr> else p)
      in if within_v_tag p1 then
           (let p2 = p1\<lparr>within_v_tag := False\<rparr>;
                p3 = (if current_key p2 = [] then p2\<lparr>current_key := empty_key\<rparr> else p2);
                p4 = p3\<lparr>retrieved_metadata :=
                          dict_set (current_key p3) (current_value p3) (retrieved_metadata p3)\<rparr>
            in p4\<lparr>current_key := [], current_value := []\<rparr>)
         else p1)"

definition handle_data :: "parser \<Rightarrow> str \<Rightarrow> parser" where
  "handle_data p data0 =
     (let inside = (within_k_tag p \<or> within_v_tag p);
          data = (if inside then join '' '' (split data0) else data0)
      in if inside \<and> data = [] then p
         else
           (let p1 = (if within_k_tag p
                      then p\<lparr>current_key := current_key p @ rstrip_colon data\<rparr> else p);
                p2 = (if within_v_tag p1
                      then (let cv = (if current_value p1 \<noteq> []
                                      then current_value p1 @ '' / '' else current_value p1)
                            in p1\<lparr>current_value := cv @ data\<rparr>)
                      else p1)
            in p2))"

text \<open>The calls the tokenizer of \<^verbatim>\<open>HTMLParser\<close> makes. \<^verbatim>\<open>handle_startendtag\<close> is not
  overridden: it calls \<^verbatim>\<open>handle_starttag\<close>, then \<^verbatim>\<open>handle_endtag\<close>. Comments,
  declarations and processing instructions reach handlers that do nothing.\<close>

datatype event =
    StartTag str "attr list"
  | EndTag str
  | StartEndTag str "attr list"
  | Data str
  | Ignored str

fun dispatch :: "parser \<Rightarrow> event \<Rightarrow> exn + parser" where
  "dispatch p (StartTag tag attrs) = handle_starttag p tag attrs"
| "dispatch p (EndTag tag) = Inr (handle_endtag p tag)"
| "dispatch p (StartEndTag tag attrs) =
     (case handle_starttag p tag attrs of
        Inl e \<Rightarrow> Inl e
      | Inr p' \<Rightarrow> Inr (handle_endtag p' tag))"
| "dispatch p (Data d) = Inr (handle_data p d)"
| "dispatch p (Ignored d) = Inr p"

fun feed :: "parser \<Rightarrow> event list \<Rightarrow> exn + parser" where
  "feed p [] = Inr p"
| "feed p (ev # evs) =
     (case dispatch p ev of Inl e \<Rightarrow> Inl e | Inr p' \<Rightarrow> feed p' evs)"

text \<open>\<^verbatim>\<open>parse\<close>: clears the result mapping, feeds the contents, closes, and returns the
  mapping. The parser object lives on, so the model returns it too. \<open>tokens\<close> is the
  tokenizer: the handler calls that \<^verbatim>\<open>feed\<close> and \<^verbatim>\<open>close\<close> make for the contents.\<close>

definition parse :: "('t \<Rightarrow> event list) \<Rightarrow> parser \<Rightarrow> 't \<Rightarrow> exn + (parser \<times> str dict)" where
  "parse tokens p contents =
     (case feed (p\<lparr>retrieved_metadata := []\<rparr>) (tokens contents) of
        Inl e \<Rightarrow> Inl e
      | Inr p' \<Rightarrow> Inr (p', retrieved_metadata p'))"

subsection \<open>The standard library, as a parameter\<close>

text \<open>A response: what \<^verbatim>\<open>request.read()\<close> and
  \<^verbatim>\<open>request.headers.get_content_charset()\<close> give.\<close>

record response =
  body :: bytes
  content_charset :: "str option"

text \<open>\<open>urlopen\<close> either raises or gives a response. \<open>urlparse\<close> gives the scheme and
  the netloc of a URI, the two components the program reads. \<open>urlunparse scheme netloc
  path\<close> is \<^verbatim>\<open>urlunparse((scheme, netloc, path, '', '', ''))\<close>. \<open>codecs name\<close> is the
  decoder registered under a charset name (\<open>None\<close>: no such codec, \<^verbatim>\<open>LookupError\<close>); a
  decoder gives \<open>None\<close> where it raises \<^verbatim>\<open>UnicodeDecodeError\<close>. \<open>html_tokens\<close> is the
  sequence of handler calls that \<^verbatim>\<open>feed\<close> followed by \<^verbatim>\<open>close\<close> makes for a text.\<close>

record 't stdlib =
  urlopen :: "str \<Rightarrow> exn + response"
  urlparse :: "str \<Rightarrow> str \<times> str"
  urlunparse :: "str \<Rightarrow> str \<Rightarrow> str \<Rightarrow> str"
  codecs :: "str \<Rightarrow> (bytes \<Rightarrow> 't option) option"
  html_tokens :: "'t \<Rightarrow> event list"

subsection \<open>The regular expressions of \<^verbatim>\<open>retrieve_uri_contents\<close>\<close>

text \<open>All three are byte patterns compiled with \<^verbatim>\<open>re.I\<close>: a letter of the pattern
  matches either case of that ASCII letter.\<close>

definition lower_ascii :: "char \<Rightarrow> char" where
  "lower_ascii c =
     (let n = (of_char c :: int) in if 65 \<le> n \<and> n \<le> 90 then char_of (n + 32) else c)"

text \<open>A literal of the pattern at the start of the input; the result is the input
  after it.\<close>

fun match_lit :: "bytes \<Rightarrow> bytes \<Rightarrow> bytes option" where
  "match_lit [] s = Some s"
| "match_lit (l # ls) [] = None"
| "match_lit (l # ls) (c # cs) =
     (if lower_ascii c = lower_ascii l then match_lit ls cs else None)"

text \<open>\<^verbatim>\<open>[^q]+q\<close> for a byte \<open>q\<close>: the greedy run can only end at the first \<open>q\<close>, and
  must not be empty. The result is the run and the input after the \<open>q\<close>.\<close>

definition match_until :: "char \<Rightarrow> bytes \<Rightarrow> (bytes \<times> bytes) option" where
  "match_until q s =
     (let g = takeWhile (\<lambda>c. c \<noteq> q) s; r = dropWhile (\<lambda>c. c \<noteq> q) s
      in if g \<noteq> [] \<and> r \<noteq> [] then Some (g, tl r) else None)"

text \<open>\<^verbatim>\<open>\s\<close> of a byte pattern.\<close>

definition re_space :: "char \<Rightarrow> bool" where
  "re_space c = (of_char c \<in> {9, 10, 11, 12, 13, 32 :: int})"

definition dquote :: char where
  "dquote = CHR 0x22"

text \<open>\<^verbatim>\<open>re.search\<close>: the match at the leftmost position that has one.\<close>

fun re_search :: "(bytes \<Rightarrow> 'a option) \<Rightarrow> bytes \<Rightarrow> 'a option" where
  "re_search m [] = m []"
| "re_search m (c # cs) = (case m (c # cs) of Some g \<Rightarrow> Some g | None \<Rightarrow> re_search m cs)"

text \<open>\<^verbatim>\<open><meta http-equiv="refresh" content="[^;]+;\s*url=([^"]+)"\<close>, group 1.\<close>

definition refresh_at :: "bytes \<Rightarrow> bytes option" where
  "refresh_at s =
     (case match_lit (''<meta http-equiv='' @ [dquote] @ ''refresh'' @ [dquote]
                      @ '' content='' @ [dquote]) s of
        None \<Rightarrow> None
      | Some s1 \<Rightarrow>
          (case match_until CHR '';'' s1 of
             None \<Rightarrow> None
           | Some (delay, s2) \<Rightarrow>
               (case match_lit ''url='' (dropWhile re_space s2) of
                  None \<Rightarrow> None
                | Some s3 \<Rightarrow> map_option fst (match_until dquote s3))))"

definition search_refresh :: "bytes \<Rightarrow> bytes option" where
  "search_refresh contents = re_search refresh_at contents"

text \<open>\<^verbatim>\<open>charset=([^"]+)"\<close>, the end of the second pattern.\<close>

definition charset_tail :: "bytes \<Rightarrow> bytes option" where
  "charset_tail s =
     (case match_lit ''charset='' s of
        None \<Rightarrow> None
      | Some s1 \<Rightarrow> map_option fst (match_until dquote s1))"

text \<open>\<^verbatim>\<open>.*charset=([^"]+)"\<close>: the dot takes any byte but a newline, and the star is
  greedy, so the longest run is tried first.\<close>

fun dot_star :: "bytes \<Rightarrow> bytes option" where
  "dot_star [] = charset_tail []"
| "dot_star (c # cs) =
     (if c = CHR 0x0A then charset_tail (c # cs)
      else (case dot_star cs of Some g \<Rightarrow> Some g | None \<Rightarrow> charset_tail (c # cs)))"

text \<open>\<^verbatim>\<open><meta http-equiv="content-type".*charset=([^"]+)"\<close>, group 1.\<close>

definition content_type_at :: "bytes \<Rightarrow> bytes option" where
  "content_type_at s =
     (case match_lit (''<meta http-equiv='' @ [dquote] @ ''content-type'' @ [dquote]) s of
        None \<Rightarrow> None
      | Some s1 \<Rightarrow> dot_star s1)"

definition search_content_type :: "bytes \<Rightarrow> bytes option" where
  "search_content_type contents = re_search content_type_at contents"

text \<open>\<^verbatim>\<open><meta charset="([^"]+)"\<close>, group 1.\<close>

definition meta_charset_at :: "bytes \<Rightarrow> bytes option" where
  "meta_charset_at s =
     (case match_lit (''<meta charset='' @ [dquote]) s of
        None \<Rightarrow> None
      | Some s1 \<Rightarrow> map_option fst (match_until dquote s1))"

definition search_meta_charset :: "bytes \<Rightarrow> bytes option" where
  "search_meta_charset contents = re_search meta_charset_at contents"

subsection \<open>\<^verbatim>\<open>retrieve_uri_contents\<close>\<close>

text \<open>\<^verbatim>\<open>b.decode('ascii')\<close>.\<close>

definition decode_ascii :: "bytes \<Rightarrow> exn + str" where
  "decode_ascii b =
     (if list_all (\<lambda>c. (of_char c :: int) < 128) b then Inr b else Inl UnicodeDecodeError)"

text \<open>The clause \<^verbatim>\<open>except ValueError\<close> around the requests: a \<^verbatim>\<open>ValueError\<close> whose
  message starts with \<^verbatim>\<open>unknown url type:\<close> becomes a \<^verbatim>\<open>URLError\<close>, anything else is
  raised again. \<^verbatim>\<open>UnicodeDecodeError\<close> is a \<^verbatim>\<open>ValueError\<close> with another message.\<close>

definition reraise :: "exn \<Rightarrow> exn" where
  "reraise e =
     (case e of
        ValueError m \<Rightarrow> (if prefix ''unknown url type:'' m then URLError else ValueError m)
      | _ \<Rightarrow> e)"

text \<open>The \<^verbatim>\<open>try\<close> block: the requests. The first component of the result lists the
  URIs given to \<^verbatim>\<open>urlopen\<close>, in order; the second is the exception raised, or the
  response whose body and charset the rest of the function uses.\<close>

definition fetch_contents :: "'t stdlib \<Rightarrow> str \<Rightarrow> str list \<times> (exn + response)" where
  "fetch_contents L uri =
     (case urlopen L uri of
        Inl e \<Rightarrow> ([uri], Inl (reraise e))
      | Inr request \<Rightarrow>
          (case search_refresh (body request) of
             None \<Rightarrow> ([uri], Inr request)
           | Some target \<Rightarrow>
               (let (scheme, netloc) = urlparse L uri
                in case decode_ascii target of
                     Inl e \<Rightarrow> ([uri], Inl (reraise e))
                   | Inr path \<Rightarrow>
                       (let uri2 = urlunparse L scheme netloc path
                        in case urlopen L uri2 of
                             Inl e \<Rightarrow> ([uri, uri2], Inl (reraise e))
                           | Inr redirected_request \<Rightarrow> ([uri, uri2], Inr redirected_request)))))"

text \<open>The charset, when the headers give none: from the body, or the default.\<close>

definition determine_charset :: "str option \<Rightarrow> bytes \<Rightarrow> exn + str" where
  "determine_charset charset contents =
     (case charset of
        None \<Rightarrow>
          (case search_content_type contents of
             Some g \<Rightarrow> decode_ascii g
           | None \<Rightarrow>
               (case search_meta_charset contents of
                  Some g \<Rightarrow> decode_ascii g
                | None \<Rightarrow> Inr ''latin_1''))
      | Some c \<Rightarrow> Inr c)"

text \<open>\<^verbatim>\<open>contents.decode(charset)\<close>.\<close>

definition bytes_decode :: "'t stdlib \<Rightarrow> bytes \<Rightarrow> str \<Rightarrow> exn + 't" where
  "bytes_decode L contents charset =
     (case codecs L charset of
        None \<Rightarrow> Inl LookupError
      | Some decoder \<Rightarrow>
          (case decoder contents of None \<Rightarrow> Inl UnicodeDecodeError | Some t \<Rightarrow> Inr t))"

definition retrieve_uri_contents :: "'t stdlib \<Rightarrow> str \<Rightarrow> exn + 't" where
  "retrieve_uri_contents L uri =
     (case snd (fetch_contents L uri) of
        Inl e \<Rightarrow> Inl e
      | Inr r \<Rightarrow>
          (case determine_charset (content_charset r) (body r) of
             Inl e \<Rightarrow> Inl e
           | Inr charset \<Rightarrow> bytes_decode L (body r) charset))"

subsection \<open>The sources: \<^verbatim>\<open>MantecaExcel\<close> and \<^verbatim>\<open>MantecaText\<close>\<close>

text \<open>A cell of the input sheet is a string cell (\<^verbatim>\<open>data_type == 's'\<close>) with its value,
  or a cell of another type. A row of \<^verbatim>\<open>sheet.rows\<close> is a tuple with at least one cell,
  so a row is its first cell and the others.\<close>

datatype cell = StringCell str | OtherCell

type_synonym sheet_row = "cell \<times> cell list"

text \<open>The inner loop over the cells of the row with number \<open>r\<close>: the first string cell
  whose scheme starts with \<^verbatim>\<open>http\<close> is yielded, and the loop breaks.\<close>

fun first_manteca :: "'t stdlib \<Rightarrow> nat \<Rightarrow> cell list \<Rightarrow> (nat \<times> str) list" where
  "first_manteca L r [] = []"
| "first_manteca L r (OtherCell # cs) = first_manteca L r cs"
| "first_manteca L r (StringCell v # cs) =
     (if prefix ''http'' (fst (urlparse L v)) then [(r, v)] else first_manteca L r cs)"

definition MantecaExcel_get_mantecas :: "'t stdlib \<Rightarrow> sheet_row list \<Rightarrow> (nat \<times> str) list" where
  "MantecaExcel_get_mantecas L rows =
     concat (map (\<lambda>(r, row). first_manteca L r (fst row # snd row)) (enumerate 1 rows))"

text \<open>\<^verbatim>\<open>s.strip()\<close>.\<close>

definition strip :: "str \<Rightarrow> str" where
  "strip s = rev (dropWhile isspace (rev (dropWhile isspace s)))"

text \<open>The argument is \<^verbatim>\<open>self.file.readlines()\<close>.\<close>

definition MantecaText_get_mantecas :: "str list \<Rightarrow> (nat \<times> str) list" where
  "MantecaText_get_mantecas lines =
     concat (map (\<lambda>(row, uri). if strip uri \<noteq> [] then [(row, strip uri)] else [])
                 (enumerate 1 lines))"

subsection \<open>The sinks: \<^verbatim>\<open>SkimmedExcel\<close> and \<^verbatim>\<open>SkimmedText\<close>\<close>

text \<open>\<^verbatim>\<open>str(n)\<close> for a row or column number.\<close>

fun str_of_nat :: "nat \<Rightarrow> str" where
  "str_of_nat n =
     (if n < 10 then [char_of (48 + n)]
      else str_of_nat (n div 10) @ [char_of (48 + n mod 10)])"

text \<open>The output sheet is the list of its cells, each a position (row, column) with a
  value, as the worksheet of openpyxl 3.1 keeps them. \<^verbatim>\<open>sheet.max_column\<close> is the largest
  column of a cell, and 1 for a sheet with no cell. Fonts, fills, column widths and the
  data type that openpyxl gives a cell are not modelled.\<close>

type_synonym sheet = "((nat \<times> nat) \<times> str) list"

definition max_column :: "sheet \<Rightarrow> nat" where
  "max_column sh = (if sh = [] then 1 else Max (set (map (\<lambda>c. snd (fst c)) sh)))"

text \<open>\<^verbatim>\<open>v[:n]\<close> for \<open>n\<close> not below 0.\<close>

fun slice_to :: "int \<Rightarrow> str \<Rightarrow> str" where
  "slice_to n [] = []"
| "slice_to n (c # cs) = (if n \<le> 0 then [] else c # slice_to (n - 1) cs)"

text \<open>\<^verbatim>\<open>ILLEGAL_CHARACTERS_RE\<close> of openpyxl: the control characters below 32 other than
  tab, line feed and carriage return.\<close>

definition illegal_character :: "char \<Rightarrow> bool" where
  "illegal_character c =
     (let n = (of_char c :: int) in n \<le> 8 \<or> n = 11 \<or> n = 12 \<or> (14 \<le> n \<and> n \<le> 31))"

text \<open>\<^verbatim>\<open>Cell.check_string\<close>, which the value setter of a cell runs on a string: the string
  is cut to 32767 characters, and a control character in what is left raises
  \<^verbatim>\<open>IllegalCharacterError\<close>.\<close>

definition check_string :: "str \<Rightarrow> exn + str" where
  "check_string v =
     (let v' = slice_to 32767 v
      in if list_ex illegal_character v' then Inl IllegalCharacterError else Inr v')"

text \<open>\<^verbatim>\<open>sheet.cell(row, column, value=v)\<close> for a string \<open>v\<close>: a row or a column below 1 and a
  row above 1048576 raise \<^verbatim>\<open>ValueError\<close>; then the cell is created if the sheet does not
  have it, and the value setter stores the checked string.\<close>

definition sheet_cell :: "sheet \<Rightarrow> nat \<Rightarrow> nat \<Rightarrow> str \<Rightarrow> exn + sheet" where
  "sheet_cell sh row column v =
     (if int row < 1 \<or> int column < 1
      then Inl (ValueError ''Row or column values must be at least 1'')
      else if \<not> (0 < int row \<and> int row < 1048577)
      then Inl (ValueError (''Row numbers must be between 1 and 1048576. Row number supplied was ''
                            @ str_of_nat row))
      else (case check_string v of
              Inl e \<Rightarrow> Inl e
            | Inr v' \<Rightarrow> Inr (AList.update (row, column) v' sh)))"

text \<open>\<^verbatim>\<open>get_column_letter\<close>: the letters of the columns 1 to 18278 (\<^verbatim>\<open>A\<close> to \<^verbatim>\<open>ZZZ\<close>);
  \<^verbatim>\<open>ValueError\<close> for any other number.\<close>

fun column_letters :: "nat \<Rightarrow> str" where
  "column_letters n =
     (if n = 0 then []
      else column_letters ((n - 1) div 26) @ [char_of (65 + (n - 1) mod 26)])"

definition get_column_letter :: "nat \<Rightarrow> exn + str" where
  "get_column_letter col_idx =
     (if 1 \<le> int col_idx \<and> int col_idx \<le> 18278 then Inr (column_letters col_idx)
      else Inl (ValueError (''Invalid column index '' @ str_of_nat col_idx)))"

record skimmed_excel =
  sheet :: sheet
  metadata_columns :: "nat dict"

text \<open>\<^verbatim>\<open>SkimmedExcel.__init__\<close>, on the cells of the loaded workbook.\<close>

definition SkimmedExcel :: "sheet \<Rightarrow> skimmed_excel" where
  "SkimmedExcel sh = \<lparr>sheet = sh, metadata_columns = []\<rparr>"

text \<open>The branch of \<^verbatim>\<open>SkimmedExcel.add_metadata\<close> for a key with no column yet. The column
  is stored in the mapping first; \<^verbatim>\<open>get_column_letter\<close> is called for the log before the
  header cell is written (its two later calls have the same argument, so they return),
  and the header is written with \<^verbatim>\<open>sheet.cell\<close>.\<close>

definition new_column :: "skimmed_excel \<Rightarrow> str \<Rightarrow> exn + skimmed_excel" where
  "new_column s key =
     (let column = max_column (sheet s) + 1;
          s0 = s\<lparr>metadata_columns := dict_set key column (metadata_columns s)\<rparr>
      in case get_column_letter column of
           Inl e \<Rightarrow> Inl e
         | Inr letter \<Rightarrow>
             (case sheet_cell (sheet s0) 1 column key of
                Inl e \<Rightarrow> Inl e
              | Inr sh \<Rightarrow> Inr (s0\<lparr>sheet := sh\<rparr>)))"

text \<open>One round of the loop of \<^verbatim>\<open>SkimmedExcel.add_metadata\<close>. The read
  \<^verbatim>\<open>self.metadata_columns[key]\<close> raises \<^verbatim>\<open>KeyError\<close> for a missing key. An exception
  leaves the method: nothing in the program catches an exception of the sink, so the
  object is not used after it.\<close>

definition SkimmedExcel_add_item :: "nat \<Rightarrow> skimmed_excel \<Rightarrow> str \<times> str \<Rightarrow> exn + skimmed_excel" where
  "SkimmedExcel_add_item row s kv =
     (let key = CONFIG_PREFIX @ fst kv
      in case (if dict_get (metadata_columns s) key = None then new_column s key else Inr s) of
           Inl e \<Rightarrow> Inl e
         | Inr s1 \<Rightarrow>
             (case dict_get (metadata_columns s1) key of
                None \<Rightarrow> Inl KeyError
              | Some column \<Rightarrow>
                  (case sheet_cell (sheet s1) row column (snd kv) of
                     Inl e \<Rightarrow> Inl e
                   | Inr sh \<Rightarrow> Inr (s1\<lparr>sheet := sh\<rparr>))))"

fun SkimmedExcel_add_items :: "nat \<Rightarrow> skimmed_excel \<Rightarrow> str dict \<Rightarrow> exn + skimmed_excel" where
  "SkimmedExcel_add_items row s [] = Inr s"
| "SkimmedExcel_add_items row s (kv # kvs) =
     (case SkimmedExcel_add_item row s kv of
        Inl e \<Rightarrow> Inl e
      | Inr s' \<Rightarrow> SkimmedExcel_add_items row s' kvs)"

definition SkimmedExcel_add_metadata ::
  "skimmed_excel \<Rightarrow> nat \<Rightarrow> str \<Rightarrow> str dict \<Rightarrow> exn + skimmed_excel" where
  "SkimmedExcel_add_metadata s row uri metadata = SkimmedExcel_add_items row s metadata"

text \<open>The text sink is the list of the strings written to the file.\<close>

definition SkimmedText_add_metadata :: "str list \<Rightarrow> nat \<Rightarrow> str \<Rightarrow> str dict \<Rightarrow> str list" where
  "SkimmedText_add_metadata file row uri metadata =
     file @ [''['' @ str_of_nat row @ ''] '' @ uri @ [CHR 0x0A]]
          @ map (\<lambda>(key, v). ''    '' @ key @ '': '' @ v @ [CHR 0x0A]) metadata"

datatype skimmed = Excel skimmed_excel | Text "str list"

fun add_metadata :: "skimmed \<Rightarrow> nat \<Rightarrow> str \<Rightarrow> str dict \<Rightarrow> exn + skimmed" where
  "add_metadata (Excel s) row uri metadata =
     (case SkimmedExcel_add_metadata s row uri metadata of
        Inl e \<Rightarrow> Inl e
      | Inr s' \<Rightarrow> Inr (Excel s'))"
| "add_metadata (Text f) row uri metadata = Inr (Text (SkimmedText_add_metadata f row uri metadata))"

subsection \<open>The loop of \<^verbatim>\<open>main\<close>\<close>

text \<open>The state of the loop: the parser (one object for the whole run), the sink, and
  the list \<^verbatim>\<open>bad_uris\<close>. \<open>sink_calls\<close> is not a variable of the program: it records the
  arguments of every call of \<^verbatim>\<open>add_metadata\<close>, to state which rows reach the sink.\<close>

record run =
  the_parser :: parser
  skimmedfile :: skimmed
  bad_uris :: "(str \<times> str) list"
  sink_calls :: "(nat \<times> str \<times> str dict) list"

text \<open>The body of the \<^verbatim>\<open>try\<close> statement for one record.\<close>

definition try_row :: "'t stdlib \<Rightarrow> run \<Rightarrow> nat \<times> str \<Rightarrow> exn + run" where
  "try_row L st rec =
     (let row = fst rec; uri = snd rec
      in case retrieve_uri_contents L uri of
           Inl e \<Rightarrow> Inl e
         | Inr contents \<Rightarrow>
             (case parse (html_tokens L) (the_parser st) contents of
                Inl e \<Rightarrow> Inl e
              | Inr (p', metadata) \<Rightarrow>
                  (let bad = (if metadata = []
                              then bad_uris st @ [(uri, ''No se obtuvieron metadatos'')]
                              else bad_uris st)
                   in case add_metadata (skimmedfile st) row uri metadata of
                        Inl e \<Rightarrow> Inl e
                      | Inr sk' \<Rightarrow>
                          Inr (st\<lparr>the_parser := p', skimmedfile := sk', bad_uris := bad,
                                  sink_calls := sink_calls st @ [(row, uri, metadata)]\<rparr>))))"

text \<open>The \<^verbatim>\<open>try\<close> statement with its two \<^verbatim>\<open>except\<close> clauses. Only
  \<^verbatim>\<open>retrieve_uri_contents\<close> raises \<^verbatim>\<open>ConnectionError\<close> or \<^verbatim>\<open>URLError\<close>, so the state
  is the one before the row when a clause runs. Any other exception leaves the loop.\<close>

definition process_row :: "'t stdlib \<Rightarrow> run \<Rightarrow> nat \<times> str \<Rightarrow> exn + run" where
  "process_row L st rec =
     (case try_row L st rec of
        Inr st' \<Rightarrow> Inr st'
      | Inl ConnectionError \<Rightarrow> Inr (st\<lparr>bad_uris := bad_uris st @ [(snd rec, ''No se pudo conectar'')]\<rparr>)
      | Inl URLError \<Rightarrow> Inr (st\<lparr>bad_uris := bad_uris st @ [(snd rec, ''No se pudo acceder'')]\<rparr>)
      | Inl e \<Rightarrow> Inl e)"

fun main_loop :: "'t stdlib \<Rightarrow> run \<Rightarrow> (nat \<times> str) list \<Rightarrow> exn + run" where
  "main_loop L st [] = Inr st"
| "main_loop L st (rec # recs) =
     (case process_row L st rec of Inl e \<Rightarrow> Inl e | Inr st' \<Rightarrow> main_loop L st' recs)"

text \<open>The state when the loop starts.\<close>

definition main_init :: "skimmed \<Rightarrow> run" where
  "main_init sk =
     \<lparr>the_parser = LibraryCatalogueHTMLParser CONFIG_K_DIV_CLASS CONFIG_V_DIV_CLASS,
      skimmedfile = sk, bad_uris = [], sink_calls = []\<rparr>"

subsection \<open>Reference instances of the library, for the examples\<close>

text \<open>The scheme and the netloc as \<^verbatim>\<open>urllib.parse.urlsplit\<close> of CPython 3.11 finds them: the
  scheme is what stands before the first colon, in lower case, when that is not empty and
  made of letters, digits, plus, minus and dot; the netloc follows \<^verbatim>\<open>//\<close> and ends
  before the first slash, question mark or hash.\<close>

definition scheme_char :: "char \<Rightarrow> bool" where
  "scheme_char c =
     (let n = (of_char c :: int)
      in (97 \<le> n \<and> n \<le> 122) \<or> (65 \<le> n \<and> n \<le> 90) \<or> (48 \<le> n \<and> n \<le> 57)
         \<or> n = 43 \<or> n = 45 \<or> n = 46)"

definition ref_urlparse :: "str \<Rightarrow> str \<times> str" where
  "ref_urlparse url =
     (let pre = takeWhile (\<lambda>c. c \<noteq> CHR '':'') url;
          post = dropWhile (\<lambda>c. c \<noteq> CHR '':'') url;
          has_scheme = (pre \<noteq> [] \<and> post \<noteq> [] \<and> list_all scheme_char pre);
          scheme = (if has_scheme then map lower_ascii pre else []);
          url1 = (if has_scheme then tl post else url);
          netloc = (if take 2 url1 = ''//''
                    then takeWhile (\<lambda>c. c \<notin> set ''/?#'') (drop 2 url1) else [])
      in (scheme, netloc))"

definition uses_netloc :: "str list" where
  "uses_netloc =
     [[], ''ftp'', ''http'', ''gopher'', ''nntp'', ''telnet'', ''imap'', ''wais'', ''file'',
      ''mms'', ''https'', ''shttp'', ''snews'', ''prospero'', ''rtsp'', ''rtsps'', ''rtspu'',
      ''rsync'', ''svn'', ''svn+ssh'', ''sftp'', ''nfs'', ''git'', ''git+ssh'', ''ws'', ''wss'']"

text \<open>\<^verbatim>\<open>urlunparse\<close> of CPython 3.11 on \<^verbatim>\<open>(scheme, netloc, url, '', '', '')\<close>.\<close>

definition ref_urlunparse :: "str \<Rightarrow> str \<Rightarrow> str \<Rightarrow> str" where
  "ref_urlunparse scheme netloc url0 =
     (let url = (if netloc \<noteq> [] \<or> (scheme \<noteq> [] \<and> scheme \<in> set uses_netloc)
                    \<or> take 2 url0 = ''//''
                 then ''//'' @ netloc
                      @ (if url0 \<noteq> [] \<and> take 1 url0 \<noteq> ''/'' then ''/'' @ url0 else url0)
                 else url0)
      in if scheme \<noteq> [] then scheme @ '':'' @ url else url)"

text \<open>Three codecs, under their usual names; the decoded text is a list of code
  points.\<close>

definition latin_1_decode :: "bytes \<Rightarrow> int list option" where
  "latin_1_decode b = Some (map of_char b)"

definition ascii_decode :: "bytes \<Rightarrow> int list option" where
  "ascii_decode b =
     (if list_all (\<lambda>c. (of_char c :: int) < 128) b then Some (map of_char b) else None)"

text \<open>UTF-8: \<open>k\<close> is the number of continuation bytes still due, \<open>acc\<close> the bits read
  so far and \<open>lo\<close> the least code point the current sequence may encode.\<close>

fun utf_8_go :: "nat \<Rightarrow> int \<Rightarrow> int \<Rightarrow> bytes \<Rightarrow> int list option" where
  "utf_8_go k acc lo [] = (if k = 0 then Some [] else None)"
| "utf_8_go k acc lo (c # cs) =
     (let b = (of_char c :: int)
      in if k = 0 then
           (if b < 128 then map_option (\<lambda>r. b # r) (utf_8_go 0 0 0 cs)
            else if 194 \<le> b \<and> b < 224 then utf_8_go 1 (b - 192) 128 cs
            else if 224 \<le> b \<and> b < 240 then utf_8_go 2 (b - 224) 2048 cs
            else if 240 \<le> b \<and> b < 245 then utf_8_go 3 (b - 240) 65536 cs
            else None)
         else if 128 \<le> b \<and> b < 192 then
           (let acc' = acc * 64 + (b - 128)
            in if k = 1 then
                 (if lo \<le> acc' \<and> acc' \<le> 1114111 \<and> \<not> (55296 \<le> acc' \<and> acc' \<le> 57343)
                  then map_option (\<lambda>r. acc' # r) (utf_8_go 0 0 0 cs) else None)
               else utf_8_go (k - 1) acc' lo cs)
         else None)"

definition utf_8_decode :: "bytes \<Rightarrow> int list option" where
  "utf_8_decode b = utf_8_go 0 0 0 b"

definition ref_codecs :: "str \<Rightarrow> (bytes \<Rightarrow> int list option) option" where
  "ref_codecs name =
     (let n = map lower_ascii name
      in if n \<in> set [''utf-8'', ''utf8'', ''utf_8''] then Some utf_8_decode
         else if n \<in> set [''latin_1'', ''latin-1'', ''latin1'', ''iso-8859-1''] then Some latin_1_decode
         else if n \<in> set [''ascii'', ''us-ascii''] then Some ascii_decode
         else None)"

text \<open>A network is a table from URIs to responses; a URI that is not in the table
  raises the given exception.\<close>

definition table_urlopen :: "(str \<times> response) list \<Rightarrow> exn \<Rightarrow> str \<Rightarrow> exn + response" where
  "table_urlopen pages e uri = (case map_of pages uri of None \<Rightarrow> Inl e | Some r \<Rightarrow> Inr r)"

text \<open>The reference library over a network and a tokenizer.\<close>

definition ref_stdlib ::
  "(str \<Rightarrow> exn + response) \<Rightarrow> (int list \<Rightarrow> event list) \<Rightarrow> int list stdlib" where
  "ref_stdlib net tokens =
     \<lparr>urlopen = net, urlparse = ref_urlparse, urlunparse = ref_urlunparse,
      codecs = ref_codecs, html_tokens = tokens\<rparr>"

subsection \<open>Predicates used in the statements\<close>

text \<open>An open tag carries a marker when one of its \<^verbatim>\<open>class\<close> attributes has a value
  that contains the marker.\<close>

definition carries_marker :: "str \<Rightarrow> attr list \<Rightarrow> bool" where
  "carries_marker marker attrs =
     list_ex (\<lambda>a. fst a = ''class''
                  \<and> (case snd a of None \<Rightarrow> False | Some v \<Rightarrow> str_contains marker v)) attrs"

text \<open>No \<^verbatim>\<open>class\<close> attribute of the tag is written without a value.\<close>

definition class_values_present :: "attr list \<Rightarrow> bool" where
  "class_values_present attrs = (\<not> list_ex (\<lambda>a. fst a = ''class'' \<and> snd a = None) attrs)"

text \<open>No tag whose name starts with the letter m, in either case, opens in these bytes.
  The three patterns start with \<^verbatim>\<open><m\<close>, so none of them can match from a position
  there.\<close>

definition no_m_tag :: "bytes \<Rightarrow> bool" where
  "no_m_tag pre = (\<not> str_contains ''<m'' (map lower_ascii pre))"

text \<open>What the two charset patterns ask of a body, by offsets. A literal of a pattern
  stands at offset \<open>i\<close> of \<open>b\<close>, in any case of the letters (the literals are in lower
  case).\<close>

definition lit_at :: "bytes \<Rightarrow> bytes \<Rightarrow> nat \<Rightarrow> bool" where
  "lit_at lit b i = prefix lit (map lower_ascii (drop i b))"

text \<open>A name and a double quote stand at offset \<open>j\<close>: the name is not empty and has no
  double quote.\<close>

definition name_at :: "bytes \<Rightarrow> nat \<Rightarrow> bytes \<Rightarrow> bool" where
  "name_at b j name = (name \<noteq> [] \<and> dquote \<notin> set name \<and> prefix (name @ [dquote]) (drop j b))"

text \<open>No line feed from offset \<open>i\<close> up to offset \<open>k\<close>.\<close>

definition same_line :: "bytes \<Rightarrow> nat \<Rightarrow> nat \<Rightarrow> bool" where
  "same_line b i k = (i \<le> k \<and> k \<le> length b \<and> CHR 0x0A \<notin> set (take (k - i) (drop i b)))"

text \<open>The first charset pattern matches from offset \<open>i\<close>, with \<^verbatim>\<open>charset=\<close> at offset \<open>k\<close>; 31
  is the length of the tag literal, 8 that of \<^verbatim>\<open>charset=\<close>.\<close>

definition content_type_match :: "bytes \<Rightarrow> nat \<Rightarrow> nat \<Rightarrow> bytes \<Rightarrow> bool" where
  "content_type_match b i k name =
     (lit_at (''<meta http-equiv='' @ [dquote] @ ''content-type'' @ [dquote]) b i
      \<and> same_line b (i + 31) k \<and> lit_at ''charset='' b k \<and> name_at b (k + 8) name)"

text \<open>The second charset pattern matches from offset \<open>i\<close>; 15 is the length of its
  literal.\<close>

definition meta_charset_match :: "bytes \<Rightarrow> nat \<Rightarrow> bytes \<Rightarrow> bool" where
  "meta_charset_match b i name =
     (lit_at (''<meta charset='' @ [dquote]) b i \<and> name_at b (i + 15) name)"

definition keys_nonempty :: "str dict \<Rightarrow> bool" where
  "keys_nonempty m = list_all (\<lambda>kv. fst kv \<noteq> []) m"









subsection \<open>Example pages, networks and inputs\<close>

text \<open>A tokenizer that finds no tag and no text, for the examples where the markup
  plays no part.\<close>

definition no_tokens :: "int list \<Rightarrow> event list" where
  "no_tokens t = []"

text \<open>Page A redirects to \<^verbatim>\<open>/b.html\<close>; page B is plain.\<close>

definition page_a :: response where
  \<open>page_a =
     \<lparr>body = ''<html><head><META HTTP-EQUIV="Refresh" CONTENT="0; URL=/b.html"></head></html>'',
      content_charset = Some ''ascii''\<rparr>\<close>

definition page_b :: response where
  "page_b = \<lparr>body = ''<p>B</p>'', content_charset = None\<rparr>"

definition host_lib :: "int list stdlib" where
  "host_lib =
     ref_stdlib
       (table_urlopen [(''http://host/a.html'', page_a), (''http://host/b.html'', page_b)] URLError)
       no_tokens"

text \<open>A network that has page A but not the page it redirects to.\<close>

definition dangling_lib :: "int list stdlib" where
  "dangling_lib = ref_stdlib (table_urlopen [(''http://host/a.html'', page_a)] URLError) no_tokens"

text \<open>A page that redirects to a target with a byte outside ASCII (u with acute accent
  in Latin-1), and the page that target names.\<close>

definition page_accent :: response where
  \<open>page_accent =
     \<lparr>body = ''<meta http-equiv="refresh" content="0;url=/b'' @ [CHR 0xFA] @ ''squeda.html">'',
      content_charset = None\<rparr>\<close>

definition accent_lib :: "int list stdlib" where
  "accent_lib =
     ref_stdlib
       (table_urlopen
          [(''http://host/a.html'', page_accent),
           (''http://host/b'' @ [CHR 0xFA] @ ''squeda.html'', page_b)] URLError)
       no_tokens"

text \<open>A page that redirects to a target that is a whole URI, on a network that has
  a page for that URI and one for its path on the original host.\<close>

definition page_absolute :: response where
  \<open>page_absolute =
     \<lparr>body = ''<meta http-equiv="refresh" content="0;url=http://other/b.html">'',
      content_charset = None\<rparr>\<close>

definition absolute_lib :: "int list stdlib" where
  "absolute_lib =
     ref_stdlib
       (table_urlopen
          [(''http://host/a.html'', page_absolute), (''http://other/b.html'', page_b),
           (''http://host/b.html'', page_b)] URLError)
       no_tokens"

text \<open>Pages with no charset in the headers: one with a \<^verbatim>\<open>meta charset\<close> only, one with no
  charset at all, one with both declarations.\<close>

definition page_utf8 :: response where
  \<open>page_utf8 =
     \<lparr>body = ''<meta charset="utf-8"><p>'' @ [CHR 0xC3, CHR 0xA9] @ ''</p>'',
      content_charset = None\<rparr>\<close>

definition page_plain :: response where
  "page_plain = \<lparr>body = ''<p>'' @ [CHR 0xE9] @ ''</p>'', content_charset = None\<rparr>"

definition page_http_equiv :: response where
  \<open>page_http_equiv =
     \<lparr>body = ''<meta http-equiv="Content-Type" content="text/html; charset=ascii"><meta charset="utf-8">'',
      content_charset = None\<rparr>\<close>

text \<open>Two more pages with no charset in the headers: one whose first line has the
  \<^verbatim>\<open>content-type\<close> declaration and whose second line has a \<^verbatim>\<open>meta charset\<close> declaration,
  and one with a \<^verbatim>\<open>meta charset\<close> declaration in capitals.\<close>

definition page_two_lines :: response where
  \<open>page_two_lines =
     \<lparr>body = ''<html><head><META http-equiv="Content-Type" content="text/html; Charset=utf-8">''
             @ [CHR 0x0A] @ ''<meta charset="ascii">'',
      content_charset = None\<rparr>\<close>

definition page_capitals :: response where
  \<open>page_capitals =
     \<lparr>body = ''<html><head><META CHARSET="UTF-8"></head>'', content_charset = None\<rparr>\<close>

definition charset_lib :: "int list stdlib" where
  "charset_lib =
     ref_stdlib
       (table_urlopen
          [(''http://host/u'', page_utf8), (''http://host/p'', page_plain),
           (''http://host/h'', page_http_equiv)] URLError)
       no_tokens"

text \<open>Pages whose declaration the patterns do not see, or see otherwise: a line feed
  inside the tag, a later \<^verbatim>\<open>charset=\<close> on the line, and the attributes the other way
  round.\<close>

definition page_split_tag :: response where
  \<open>page_split_tag =
     \<lparr>body = ''<meta http-equiv="content-type"'' @ [CHR 0x0A]
             @ '' content="text/html; charset=utf-8"><p>'' @ [CHR 0xC3, CHR 0xA9] @ ''</p>'',
      content_charset = None\<rparr>\<close>

definition page_later_charset :: response where
  \<open>page_later_charset =
     \<lparr>body = ''<meta http-equiv="content-type" content="text/html"><meta charset="utf-8"><a href="?charset=x">'',
      content_charset = None\<rparr>\<close>

definition page_swapped :: response where
  \<open>page_swapped =
     \<lparr>body = ''<meta content="text/html; charset=utf-8" http-equiv="Content-Type">'',
      content_charset = None\<rparr>\<close>

definition misread_lib :: "int list stdlib" where
  "misread_lib =
     ref_stdlib
       (table_urlopen
          [(''http://host/s'', page_split_tag), (''http://host/l'', page_later_charset),
           (''http://host/w'', page_swapped)] URLError)
       no_tokens"

text \<open>Pages that cannot be decoded: a byte that is not UTF-8 under a UTF-8 header, and a
  charset name that no codec has.\<close>

definition page_bad_bytes :: response where
  "page_bad_bytes = \<lparr>body = ''<p>'' @ [CHR 0xFF] @ ''</p>'', content_charset = Some ''utf-8''\<rparr>"

definition page_bad_charset :: response where
  \<open>page_bad_charset = \<lparr>body = ''<meta charset="klingon"><p>B</p>'', content_charset = None\<rparr>\<close>

definition decode_lib :: "int list stdlib" where
  "decode_lib =
     ref_stdlib
       (table_urlopen
          [(''http://host/1'', page_bad_bytes), (''http://host/2'', page_bad_charset),
           (''http://host/3'', page_b)] URLError)
       no_tokens"

text \<open>A network where one host refuses the connection, one URI is unknown, and one page
  has no metadata.\<close>

definition flaky_net :: "str \<Rightarrow> exn + response" where
  "flaky_net uri =
     (if uri = ''http://down/1'' then Inl ConnectionError
      else table_urlopen [(''http://up/3'', page_b)] URLError uri)"

definition flaky_lib :: "int list stdlib" where
  "flaky_lib = ref_stdlib flaky_net no_tokens"

text \<open>A network whose response breaks off while it is read: \<^verbatim>\<open>request.read()\<close> raises
  \<^verbatim>\<open>http.client.IncompleteRead\<close>, which is neither a \<^verbatim>\<open>ConnectionError\<close> nor a \<^verbatim>\<open>URLError\<close>.\<close>

definition broken_lib :: "int list stdlib" where
  "broken_lib = ref_stdlib (table_urlopen [] (OtherException ''IncompleteRead'')) no_tokens"

text \<open>The handler calls for the text \<^verbatim>\<open></p><div class=titn>V\<close>: a stray close tag, then a
  value region that is never closed.\<close>

definition stray_close_html :: str where
  "stray_close_html = ''</p><div class=titn>V''"

definition stray_close_tokens :: "str \<Rightarrow> event list" where
  "stray_close_tokens html =
     [EndTag ''p'', StartTag ''div'' [(''class'', Some ''titn'')], Data ''V'']"

definition example_rows :: "sheet_row list" where
  "example_rows =
     [(StringCell ''Title'', [StringCell ''URI'']),
      (StringCell ''Don Quijote'',
         [OtherCell, StringCell ''https://cat/1'', StringCell ''http://cat/x'']),
      (StringCell ''La Celestina'', [StringCell ''ftp://cat/2''])]"

definition example_lines :: "str list" where
  "example_lines = [''http://cat/1'' @ [CHR 0x0A], [CHR 0x0A], ''  ftp://cat/2 '' @ [CHR 0x0A]]"

text \<open>The scenario of the specification: one record whose page has a key region
  \<^verbatim>\<open>Autor:\<close> and a value region \<^verbatim>\<open>Cervantes\<close>.\<close>

definition item_uri :: str where
  "item_uri = ''http://example.org/item/42''"

definition item_tokens :: "int list \<Rightarrow> event list" where
  "item_tokens t =
     [StartTag ''div'' [(''class'', Some ''auth'')], Data ''Autor:'', EndTag ''div'',
      StartTag ''div'' [(''class'', Some ''titn'')], Data ''Cervantes'', EndTag ''div'']"

definition item_lib :: "int list stdlib" where
  "item_lib = ref_stdlib (table_urlopen [(item_uri, page_b)] URLError) item_tokens"

text \<open>A page whose value region has the control character 1 after its text.\<close>

definition control_tokens :: "int list \<Rightarrow> event list" where
  "control_tokens t =
     [StartTag ''div'' [(''class'', Some ''auth'')], Data ''Autor:'', EndTag ''div'',
      StartTag ''div'' [(''class'', Some ''titn'')], Data (''Cervantes'' @ [CHR 0x01]),
      EndTag ''div'']"

definition control_lib :: "int list stdlib" where
  "control_lib = ref_stdlib (table_urlopen [(item_uri, page_b)] URLError) control_tokens"

text \<open>A network where \<^verbatim>\<open>urlopen\<close> knows no handler for the URI.\<close>

definition unknown_type_lib :: "int list stdlib" where
  "unknown_type_lib =
     ref_stdlib (table_urlopen [] (ValueError ''unknown url type: foo'')) no_tokens"

section \<open>The extractor\<close>

subsection \<open>What the handlers keep and change\<close>

lemma handle_attr_classes:
  "handle_attr p a = Inr p' \<Longrightarrow> k_class p' = k_class p \<and> v_class p' = v_class p"
  by (auto simp: handle_attr_def Let_def split: if_splits option.splits)

lemma handle_attr_metadata:
  "handle_attr p a = Inr p' \<Longrightarrow> retrieved_metadata p' = retrieved_metadata p"
  by (auto simp: handle_attr_def Let_def split: if_splits option.splits)

lemma handle_attr_flags:
  "handle_attr p a = Inr p' \<Longrightarrow>
     (within_k_tag p \<longrightarrow> within_k_tag p') \<and> (within_v_tag p \<longrightarrow> within_v_tag p')"
  by (auto simp: handle_attr_def Let_def split: if_splits option.splits)

lemma handle_attr_buffers:
  "handle_attr p a = Inr p' \<Longrightarrow>
     (current_key p = [] \<longrightarrow> current_key p' = [])
     \<and> (current_value p = [] \<longrightarrow> current_value p' = [])"
  by (auto simp: handle_attr_def Let_def split: if_splits option.splits)

lemma handle_attr_total:
  "\<not> (fst a = ''class'' \<and> snd a = None) \<Longrightarrow> \<exists>p'. handle_attr p a = Inr p'"
  by (auto simp: handle_attr_def Let_def split: option.splits)

lemma handle_attr_marked:
  assumes "handle_attr p a = Inr p'" "fst a = ''class''" "snd a = Some v"
  shows "(str_contains (k_class p) v \<longrightarrow> within_k_tag p' \<and> current_key p' = [])
       \<and> (str_contains (v_class p) v \<longrightarrow> within_v_tag p' \<and> current_value p' = [])"
  using assms by (auto simp: handle_attr_def Let_def split: if_splits)

lemma handle_attrs_metadata:
  "handle_attrs p as = Inr p' \<Longrightarrow> retrieved_metadata p' = retrieved_metadata p"
proof (induction as arbitrary: p)
  case Nil
  then show ?case by simp
next
  case (Cons a as)
  then obtain q where q: "handle_attr p a = Inr q" and r: "handle_attrs q as = Inr p'"
    by (auto split: sum.splits)
  from Cons.IH [OF r] handle_attr_metadata [OF q] show ?case by simp
qed

lemma handle_attrs_flags:
  "handle_attrs p as = Inr p' \<Longrightarrow>
     (within_k_tag p \<longrightarrow> within_k_tag p') \<and> (within_v_tag p \<longrightarrow> within_v_tag p')"
proof (induction as arbitrary: p)
  case Nil
  then show ?case by simp
next
  case (Cons a as)
  then obtain q where q: "handle_attr p a = Inr q" and r: "handle_attrs q as = Inr p'"
    by (auto split: sum.splits)
  from Cons.IH [OF r] handle_attr_flags [OF q] show ?case by simp
qed

lemma handle_data_flags:
  "within_k_tag (handle_data p d) = within_k_tag p
   \<and> within_v_tag (handle_data p d) = within_v_tag p"
  by (simp add: handle_data_def Let_def)

lemma handle_data_metadata: "retrieved_metadata (handle_data p d) = retrieved_metadata p"
  by (simp add: handle_data_def Let_def)

lemma handle_endtag_flags:
  "\<not> within_k_tag (handle_endtag p tag) \<and> \<not> within_v_tag (handle_endtag p tag)"
  by (simp add: handle_endtag_def Let_def)

lemma handle_endtag_any_tag: "handle_endtag p tag = handle_endtag p tag'"
  by (simp add: handle_endtag_def)

subsection \<open>Close tags\<close>

text \<open>
  C4, as the code has it. \<^verbatim>\<open>handle_endtag\<close> never reads the tag name: every close tag, of
  whatever element, clears both region flags, so a region ends at the first close tag
  after its open tag, also when that close tag belongs to an element nested inside the
  region. Text and open tags leave a flag that is set as it is.
\<close>

theorem endtag_clears_both_flags:
  "\<not> within_k_tag (handle_endtag p tag) \<and> \<not> within_v_tag (handle_endtag p tag)
   \<and> handle_endtag p tag = handle_endtag p tag'
   \<and> within_k_tag (handle_data p d) = within_k_tag p
   \<and> within_v_tag (handle_data p d) = within_v_tag p
   \<and> (handle_starttag p tag attrs = Inr p' \<longrightarrow>
        (within_k_tag p \<longrightarrow> within_k_tag p') \<and> (within_v_tag p \<longrightarrow> within_v_tag p'))"
  using handle_endtag_flags [of p tag] handle_endtag_any_tag [of p tag tag']
    handle_data_flags [of p d] handle_attrs_flags [of p attrs p']
  by (simp add: handle_starttag_def)

text \<open>The theorem at a parser inside both regions, with the close tag of a nested
  \<^verbatim>\<open>b\<close> element and an open tag that carries no marker.\<close>

theorem endtag_clears_both_flags_witness:
  "\<not> within_k_tag
       (handle_endtag
          \<lparr>within_k_tag = True, within_v_tag = True, k_class = ''auth'', v_class = ''titn'',
           current_key = ''K'', current_value = ''V'', retrieved_metadata = []\<rparr> ''b'')
   \<and> \<not> within_v_tag
       (handle_endtag
          \<lparr>within_k_tag = True, within_v_tag = True, k_class = ''auth'', v_class = ''titn'',
           current_key = ''K'', current_value = ''V'', retrieved_metadata = []\<rparr> ''b'')
   \<and> handle_starttag
        \<lparr>within_k_tag = True, within_v_tag = True, k_class = ''auth'', v_class = ''titn'',
         current_key = ''K'', current_value = ''V'', retrieved_metadata = []\<rparr>
        ''b'' [(''id'', Some ''n'')]
      = Inr \<lparr>within_k_tag = True, within_v_tag = True, k_class = ''auth'', v_class = ''titn'',
             current_key = ''K'', current_value = ''V'', retrieved_metadata = []\<rparr>"
proof -
  let ?p = "\<lparr>within_k_tag = True, within_v_tag = True, k_class = ''auth'', v_class = ''titn'',
             current_key = ''K'', current_value = ''V'', retrieved_metadata = []\<rparr>"
  have h: "handle_starttag ?p ''b'' [(''id'', Some ''n'')] = Inr ?p" by code_simp
  from endtag_clears_both_flags [of ?p "''b''" "''div''" "''x''" "[(''id'', Some ''n'')]" ?p] h
  show ?thesis by blast
qed

text \<open>The claim as written fails on \<^verbatim>\<open><div class="titn">A<b>B</b>\<close>: the close tag of the
  nested \<^verbatim>\<open>b\<close> clears the value flag and commits \<^verbatim>\<open>A / B\<close>.\<close>

theorem nested_close_counterexample:
  "feed (LibraryCatalogueHTMLParser ''auth'' ''titn'')
     [StartTag ''div'' [(''class'', Some ''titn'')], Data ''A'', StartTag ''b'' [], Data ''B'',
      EndTag ''b'']
   = Inr \<lparr>within_k_tag = False, within_v_tag = False, k_class = ''auth'', v_class = ''titn'',
          current_key = [], current_value = [],
          retrieved_metadata = [(''[vac'' @ [CHR 0xED] @ ''o]'', ''A / B'')]\<rparr>"
  by code_simp

subsection \<open>Open tags inside a region\<close>

lemma handle_attrs_reopen:
  "class_values_present as \<Longrightarrow>
   \<exists>p'. handle_attrs p as = Inr p'
      \<and> k_class p' = k_class p \<and> v_class p' = v_class p
      \<and> (within_k_tag p \<longrightarrow> within_k_tag p') \<and> (within_v_tag p \<longrightarrow> within_v_tag p')
      \<and> (current_key p = [] \<longrightarrow> current_key p' = [])
      \<and> (current_value p = [] \<longrightarrow> current_value p' = [])
      \<and> (carries_marker (k_class p) as \<longrightarrow> within_k_tag p' \<and> current_key p' = [])
      \<and> (carries_marker (v_class p) as \<longrightarrow> within_v_tag p' \<and> current_value p' = [])"
proof (induction as arbitrary: p)
  case Nil
  then show ?case by (simp add: carries_marker_def)
next
  case (Cons a as)
  from Cons.prems have pa: "\<not> (fst a = ''class'' \<and> snd a = None)"
    and pas: "class_values_present as"
    by (simp_all add: class_values_present_def)
  from handle_attr_total [OF pa] obtain q where q: "handle_attr p a = Inr q" by blast
  from Cons.IH [OF pas, of q] obtain p' where r: "handle_attrs q as = Inr p'"
    and cls: "k_class p' = k_class q" "v_class p' = v_class q"
    and fl: "within_k_tag q \<longrightarrow> within_k_tag p'" "within_v_tag q \<longrightarrow> within_v_tag p'"
    and bf: "current_key q = [] \<longrightarrow> current_key p' = []"
            "current_value q = [] \<longrightarrow> current_value p' = []"
    and mk: "carries_marker (k_class q) as \<longrightarrow> within_k_tag p' \<and> current_key p' = []"
    and mv: "carries_marker (v_class q) as \<longrightarrow> within_v_tag p' \<and> current_value p' = []"
    by blast
  note c = handle_attr_classes [OF q] and f = handle_attr_flags [OF q]
    and b = handle_attr_buffers [OF q]
  have hk: "carries_marker (k_class p) (a # as) \<longrightarrow> within_k_tag p' \<and> current_key p' = []"
  proof
    assume h: "carries_marker (k_class p) (a # as)"
    show "within_k_tag p' \<and> current_key p' = []"
    proof (cases "carries_marker (k_class p) as")
      case True
      with mk c show ?thesis by simp
    next
      case False
      with h obtain v where "fst a = ''class''" "snd a = Some v" "str_contains (k_class p) v"
        by (auto simp: carries_marker_def split: option.splits)
      with handle_attr_marked [OF q] have "within_k_tag q \<and> current_key q = []" by blast
      with fl bf show ?thesis by simp
    qed
  qed
  have hv: "carries_marker (v_class p) (a # as) \<longrightarrow> within_v_tag p' \<and> current_value p' = []"
  proof
    assume h: "carries_marker (v_class p) (a # as)"
    show "within_v_tag p' \<and> current_value p' = []"
    proof (cases "carries_marker (v_class p) as")
      case True
      with mv c show ?thesis by simp
    next
      case False
      with h obtain v where "fst a = ''class''" "snd a = Some v" "str_contains (v_class p) v"
        by (auto simp: carries_marker_def split: option.splits)
      with handle_attr_marked [OF q] have "within_v_tag q \<and> current_value q = []" by blast
      with fl bf show ?thesis by simp
    qed
  qed
  from q r cls fl bf c f b hk hv show ?case by simp
qed

text \<open>
  C5, as the code has it. An open tag that carries a marker while the flag of that
  marker is already set, and none of whose \<^verbatim>\<open>class\<close> attributes lacks a value, is handled
  without an exception and leaves the flag set; but it empties the buffer of that
  region, as the first open tag does: the text collected so far is discarded, and what
  follows is collected into the empty buffer.
\<close>

theorem reopen_resets_buffer:
  "class_values_present attrs \<Longrightarrow>
   \<exists>p'. handle_starttag p tag attrs = Inr p'
      \<and> (within_k_tag p \<and> carries_marker (k_class p) attrs \<longrightarrow>
            within_k_tag p' \<and> current_key p' = [])
      \<and> (within_v_tag p \<and> carries_marker (v_class p) attrs \<longrightarrow>
            within_v_tag p' \<and> current_value p' = [])"
  using handle_attrs_reopen [of attrs p] unfolding handle_starttag_def by blast

text \<open>The theorem at a parser inside a key region that has read \<^verbatim>\<open>Autor\<close> and inside a
  value region that has read \<^verbatim>\<open>Cervantes\<close>, for a tag that carries both markers.\<close>

theorem reopen_resets_buffer_witness:
  "handle_starttag
     \<lparr>within_k_tag = True, within_v_tag = True, k_class = ''auth'', v_class = ''titn'',
      current_key = ''Autor'', current_value = ''Cervantes'', retrieved_metadata = []\<rparr>
     ''span'' [(''id'', None), (''class'', Some ''x auth titn'')]
   = Inr \<lparr>within_k_tag = True, within_v_tag = True, k_class = ''auth'', v_class = ''titn'',
          current_key = [], current_value = [], retrieved_metadata = []\<rparr>"
proof -
  let ?p = "\<lparr>within_k_tag = True, within_v_tag = True, k_class = ''auth'', v_class = ''titn'',
             current_key = ''Autor'', current_value = ''Cervantes'', retrieved_metadata = []\<rparr>"
  let ?as = "[(''id'', None), (''class'', Some ''x auth titn'')]"
  have c: "class_values_present ?as" by code_simp
  have mk: "carries_marker (k_class ?p) ?as" by code_simp
  have mv: "carries_marker (v_class ?p) ?as" by code_simp
  from reopen_resets_buffer [OF c, of ?p "''span''"] mk mv
  obtain p' where h: "handle_starttag ?p ''span'' ?as = Inr p'"
    and k: "within_k_tag p' \<and> current_key p' = []"
    and v: "within_v_tag p' \<and> current_value p' = []"
    by auto
  have e: "handle_starttag ?p ''span'' ?as
      = Inr \<lparr>within_k_tag = True, within_v_tag = True, k_class = ''auth'', v_class = ''titn'',
             current_key = [], current_value = [], retrieved_metadata = []\<rparr>"
    by code_simp
  from h k v e show ?thesis by simp
qed

text \<open>The claim as written fails on \<^verbatim>\<open><div class="auth">A<span class="auth">B\<close>: the
  second open tag discards \<^verbatim>\<open>A\<close>, and the key buffer holds \<^verbatim>\<open>B\<close>, not \<^verbatim>\<open>AB\<close>.\<close>

theorem reopen_counterexample:
  "feed (LibraryCatalogueHTMLParser ''auth'' ''titn'')
     [StartTag ''div'' [(''class'', Some ''auth'')], Data ''A'',
      StartTag ''span'' [(''class'', Some ''auth'')], Data ''B'']
   = Inr \<lparr>within_k_tag = True, within_v_tag = False, k_class = ''auth'', v_class = ''titn'',
          current_key = ''B'', current_value = [], retrieved_metadata = []\<rparr>"
  by code_simp

subsection \<open>Commits\<close>

lemma empty_key_nonempty: "empty_key \<noteq> []"
  by (simp add: empty_key_def)

lemma handle_endtag_commit:
  "within_v_tag p \<Longrightarrow>
   handle_endtag p tag =
     p\<lparr>within_k_tag := False, within_v_tag := False, current_key := [], current_value := [],
       retrieved_metadata :=
         dict_set (if current_key p = [] then empty_key else current_key p) (current_value p)
                  (retrieved_metadata p)\<rparr>"
  by (simp add: handle_endtag_def Let_def)

lemma handle_endtag_no_commit:
  "\<not> within_v_tag p \<Longrightarrow>
   retrieved_metadata (handle_endtag p tag) = retrieved_metadata p
   \<and> current_key (handle_endtag p tag) = current_key p
   \<and> current_value (handle_endtag p tag) = current_value p"
  by (simp add: handle_endtag_def Let_def)

lemma dict_set_get: "dict_get (dict_set k v m) k = Some v"
  by (simp add: dict_get_def dict_set_def update_conv')

lemma dict_set_other: "k' \<noteq> k \<Longrightarrow> dict_get (dict_set k v m) k' = dict_get m k'"
  by (simp add: dict_get_def dict_set_def update_conv')

lemma dict_set_keys:
  "map fst (dict_set k v m) = (if k \<in> fst ` set m then map fst m else map fst m @ [k])"
  by (simp add: dict_set_def update_keys)

lemma keys_nonempty_dict_set:
  "keys_nonempty m \<Longrightarrow> k \<noteq> [] \<Longrightarrow> keys_nonempty (dict_set k v m)"
  unfolding keys_nonempty_def dict_set_def list_all_iff
  by (induction m) auto

lemma handle_endtag_keys:
  "keys_nonempty (retrieved_metadata p) \<Longrightarrow>
   keys_nonempty (retrieved_metadata (handle_endtag p tag))"
  by (cases "within_v_tag p")
     (simp_all add: handle_endtag_commit handle_endtag_no_commit keys_nonempty_dict_set
        empty_key_nonempty)

lemma dispatch_keys:
  assumes "dispatch p ev = Inr p'" "keys_nonempty (retrieved_metadata p)"
  shows "keys_nonempty (retrieved_metadata p')"
proof (cases ev)
  case (StartTag tag attrs)
  with assms show ?thesis by (auto simp: handle_starttag_def dest: handle_attrs_metadata)
next
  case (EndTag tag)
  with assms show ?thesis by (auto simp: handle_endtag_keys)
next
  case (StartEndTag tag attrs)
  with assms show ?thesis
    by (auto simp: handle_starttag_def handle_endtag_keys split: sum.splits
        dest: handle_attrs_metadata)
next
  case (Data d)
  with assms show ?thesis by (auto simp: handle_data_metadata)
next
  case (Ignored d)
  with assms show ?thesis by auto
qed

lemma feed_keys:
  "feed p evs = Inr p' \<Longrightarrow> keys_nonempty (retrieved_metadata p) \<Longrightarrow>
   keys_nonempty (retrieved_metadata p')"
proof (induction evs arbitrary: p)
  case Nil
  then show ?case by simp
next
  case (Cons ev evs)
  then obtain q where q: "dispatch p ev = Inr q" and r: "feed q evs = Inr p'"
    by (auto split: sum.splits)
  from Cons.IH [OF r dispatch_keys [OF q Cons.prems(2)]] show ?case .
qed

lemma parse_keys: "parse tokens p contents = Inr (p', md) \<Longrightarrow> keys_nonempty md"
  unfolding parse_def
  by (auto split: sum.splits dest!: feed_keys simp: keys_nonempty_def)

text \<open>
  C6, as the code has it. A close tag met inside a value region (\<open>pv\<close>) stores the pair of
  the current key, or of the sentinel when the key buffer is empty, and the current
  value; it clears both flags and both buffers. The sentinel is \<^const>\<open>empty_key\<close>, the
  Spanish word in brackets, not \<^verbatim>\<open>[empty]\<close>. A close tag met outside a value region (\<open>pk\<close>:
  a key region, or none) stores nothing and keeps the buffers; text and open tags never
  store anything. Storing under a key replaces the value stored before under that key,
  keeps the values of the other keys and keeps the place of the key in the order. Every
  key of a mapping that \<^verbatim>\<open>parse\<close> returns is a non-empty string.
\<close>

theorem commit_on_value_close:
  "(within_v_tag pv \<longrightarrow>
      handle_endtag pv tag =
        pv\<lparr>within_k_tag := False, within_v_tag := False, current_key := [],
           current_value := [],
           retrieved_metadata :=
             dict_set (if current_key pv = [] then empty_key else current_key pv)
                      (current_value pv) (retrieved_metadata pv)\<rparr>)
   \<and> (\<not> within_v_tag pk \<longrightarrow>
        retrieved_metadata (handle_endtag pk tag) = retrieved_metadata pk
        \<and> current_key (handle_endtag pk tag) = current_key pk
        \<and> current_value (handle_endtag pk tag) = current_value pk)
   \<and> retrieved_metadata (handle_data p d) = retrieved_metadata p
   \<and> (handle_starttag p tag attrs = Inr q \<longrightarrow> retrieved_metadata q = retrieved_metadata p)
   \<and> dict_get (dict_set k v m) k = Some v
   \<and> (k' \<noteq> k \<longrightarrow> dict_get (dict_set k v m) k' = dict_get m k')
   \<and> map fst (dict_set k v m) = (if k \<in> fst ` set m then map fst m else map fst m @ [k])
   \<and> (parse tokens p contents = Inr (r, md) \<longrightarrow> keys_nonempty md)"
  using handle_endtag_commit [of pv tag] handle_endtag_no_commit [of pk tag]
    handle_data_metadata [of p d] handle_attrs_metadata [of p attrs q]
    dict_set_get [of k v m] dict_set_other [of k' k v m] dict_set_keys [of k v m]
    parse_keys [of tokens p contents r md]
  unfolding handle_starttag_def by blast

text \<open>The theorem at a value region that closes with the key \<^verbatim>\<open>Autor\<close> already stored (the
  new value replaces the old one, in place), at a key region that closes, and at the
  parse of a text whose value region has no key.\<close>

theorem commit_on_value_close_witness:
  "handle_endtag
     \<lparr>within_k_tag = False, within_v_tag = True, k_class = ''auth'', v_class = ''titn'',
      current_key = ''Autor'', current_value = ''Lope'',
      retrieved_metadata = [(''Autor'', ''Cervantes''), (''Lugar'', ''Madrid'')]\<rparr> ''td''
   = \<lparr>within_k_tag = False, within_v_tag = False, k_class = ''auth'', v_class = ''titn'',
      current_key = [], current_value = [],
      retrieved_metadata = [(''Autor'', ''Lope''), (''Lugar'', ''Madrid'')]\<rparr>
   \<and> retrieved_metadata
       (handle_endtag
          \<lparr>within_k_tag = True, within_v_tag = False, k_class = ''auth'', v_class = ''titn'',
           current_key = ''Autor'', current_value = [], retrieved_metadata = []\<rparr> ''td'') = []
   \<and> keys_nonempty [(''[vac'' @ [CHR 0xED] @ ''o]'', ''V'')]"
proof -
  let ?pv = "\<lparr>within_k_tag = False, within_v_tag = True, k_class = ''auth'', v_class = ''titn'',
      current_key = ''Autor'', current_value = ''Lope'',
      retrieved_metadata = [(''Autor'', ''Cervantes''), (''Lugar'', ''Madrid'')]\<rparr>"
  let ?pk = "\<lparr>within_k_tag = True, within_v_tag = False, k_class = ''auth'', v_class = ''titn'',
           current_key = ''Autor'', current_value = [], retrieved_metadata = []\<rparr>"
  let ?p = "LibraryCatalogueHTMLParser ''auth'' ''titn''"
  let ?r = "\<lparr>within_k_tag = False, within_v_tag = False, k_class = ''auth'', v_class = ''titn'',
      current_key = [], current_value = [],
      retrieved_metadata = [(''[vac'' @ [CHR 0xED] @ ''o]'', ''V'')]\<rparr>"
  let ?md = "[(''[vac'' @ [CHR 0xED] @ ''o]'', ''V'')]"
  let ?tokens = "\<lambda>t::str. [StartTag ''p'' [(''class'', Some ''titn'')], Data ''V'', EndTag ''p'']"
  have h1: "within_v_tag ?pv" by simp
  have h2: "\<not> within_v_tag ?pk" by simp
  have h3: "handle_starttag ?p ''td'' [] = Inr ?p" by code_simp
  have h4: "''Lugar'' \<noteq> ''Autor''" by simp
  have h5: "parse ?tokens ?p ''<p class=titn>V</p>'' = Inr (?r, ?md)" by code_simp
  have e: "dict_set ''Autor'' ''Lope'' [(''Autor'', ''Cervantes''), (''Lugar'', ''Madrid'')]
             = [(''Autor'', ''Lope''), (''Lugar'', ''Madrid'')]" by code_simp
  from commit_on_value_close [of ?pv "''td''" ?pk ?p "''x''" "[]" ?p "''Autor''" "''Lope''"
      "[(''Autor'', ''Cervantes''), (''Lugar'', ''Madrid'')]" "''Lugar''" ?tokens
      "''<p class=titn>V</p>''" ?r ?md] h1 h2 h3 h4 h5 e
  show ?thesis by simp
qed

text \<open>The claim as written fails on \<^verbatim>\<open><p class="titn">V</p>\<close>: the key stored for the
  empty key buffer is not \<^verbatim>\<open>[empty]\<close>.\<close>

theorem sentinel_counterexample:
  "feed (LibraryCatalogueHTMLParser ''auth'' ''titn'')
     [StartTag ''p'' [(''class'', Some ''titn'')], Data ''V'', EndTag ''p'']
   = Inr \<lparr>within_k_tag = False, within_v_tag = False, k_class = ''auth'', v_class = ''titn'',
          current_key = [], current_value = [],
          retrieved_metadata = [(''[vac'' @ [CHR 0xED] @ ''o]'', ''V'')]\<rparr>
   \<and> ''[vac'' @ [CHR 0xED] @ ''o]'' \<noteq> ''[empty]''"
  by code_simp

subsection \<open>Two calls of \<^verbatim>\<open>parse\<close>\<close>

text \<open>
  C7 on the code. \<^verbatim>\<open>parse\<close> clears the result mapping only; the two flags and the two
  buffers keep what the call before left. On \<^const>\<open>stray_close_html\<close> the first call
  returns the empty mapping and leaves the parser inside a value region that holds
  \<^verbatim>\<open>V\<close>; the second call, on the same text with the same markers, meets the stray close
  tag inside that region and returns one entry.
\<close>

theorem parse_twice_differs:
  "parse stray_close_tokens (LibraryCatalogueHTMLParser ''auth'' ''titn'') stray_close_html
   = Inr (\<lparr>within_k_tag = False, within_v_tag = True, k_class = ''auth'', v_class = ''titn'',
           current_key = [], current_value = ''V'', retrieved_metadata = []\<rparr>, [])
   \<and> parse stray_close_tokens
        \<lparr>within_k_tag = False, within_v_tag = True, k_class = ''auth'', v_class = ''titn'',
         current_key = [], current_value = ''V'', retrieved_metadata = []\<rparr>
        stray_close_html
   = Inr (\<lparr>within_k_tag = False, within_v_tag = True, k_class = ''auth'', v_class = ''titn'',
           current_key = [], current_value = ''V'',
           retrieved_metadata = [(''[vac'' @ [CHR 0xED] @ ''o]'', ''V'')]\<rparr>,
          [(''[vac'' @ [CHR 0xED] @ ''o]'', ''V'')])"
  by code_simp

section \<open>The fetcher\<close>

subsection \<open>What the patterns match\<close>

lemma match_lit_same_case:
  "map lower_ascii tag = map lower_ascii lit \<Longrightarrow> match_lit lit (tag @ s) = Some s"
proof (induction lit arbitrary: tag)
  case Nil
  then show ?case by simp
next
  case (Cons l ls)
  then obtain t ts where t: "tag = t # ts" by (cases tag) auto
  with Cons.prems have "lower_ascii t = lower_ascii l" "map lower_ascii ts = map lower_ascii ls"
    by simp_all
  with Cons.IH [of ts] t show ?case by simp
qed

lemma match_until_found:
  assumes "g \<noteq> []" "q \<notin> set g"
  shows "match_until q (g @ q # rest) = Some (g, rest)"
proof -
  from assms(2) have t: "takeWhile (\<lambda>c. c \<noteq> q) (g @ q # rest) = g"
    by (induction g) auto
  from assms(2) have d: "dropWhile (\<lambda>c. c \<noteq> q) (g @ q # rest) = q # rest"
    by (induction g) auto
  from assms(1) t d show ?thesis by (simp add: match_until_def)
qed

lemma re_search_skip:
  "(\<And>a b. pre = a @ b \<Longrightarrow> b \<noteq> [] \<Longrightarrow> m (b @ s) = None) \<Longrightarrow>
   re_search m (pre @ s) = re_search m s"
proof (induction pre)
  case Nil
  then show ?case by simp
next
  case (Cons c pre)
  have here: "m (c # pre @ s) = None" using Cons.prems [of "[]" "c # pre"] by simp
  have "re_search m (pre @ s) = re_search m s"
  proof (rule Cons.IH)
    fix a b
    assume "pre = a @ b" "b \<noteq> []"
    with Cons.prems [of "c # a" b] show "m (b @ s) = None" by simp
  qed
  with here show ?case by simp
qed

lemma re_search_here: "m s = Some r \<Longrightarrow> re_search m s = Some r"
  by (cases s) simp_all

lemma str_contains_append: "str_contains sub (a @ sub @ b)"
proof (induction a)
  case Nil
  show ?case
  proof (cases "sub @ b")
    case Nil
    then show ?thesis by simp
  next
    case (Cons c cs)
    have "prefix sub (sub @ b)" by simp
    then have "prefix sub (c # cs)" unfolding Cons .
    with Cons show ?thesis by simp
  qed
next
  case (Cons c a)
  then show ?case by simp
qed

lemma lower_ascii_lt_id: "lower_ascii CHR ''<'' = CHR ''<''"
  by code_simp

lemma lower_ascii_m_id: "lower_ascii CHR ''m'' = CHR ''m''"
  by code_simp

lemma match_lit_two_bytes:
  assumes "match_lit (CHR ''<'' # CHR ''m'' # ls) t = Some r"
  shows "\<exists>x y t'. t = x # y # t' \<and> lower_ascii x = CHR ''<'' \<and> lower_ascii y = CHR ''m''"
proof -
  from assms obtain x t1 where t: "t = x # t1" by (cases t) auto
  with assms have x: "lower_ascii x = CHR ''<''" and r: "match_lit (CHR ''m'' # ls) t1 = Some r"
    by (auto simp: lower_ascii_lt_id split: if_splits)
  from r obtain y t2 where t1: "t1 = y # t2" by (cases t1) auto
  with r have "lower_ascii y = CHR ''m''" by (auto simp: lower_ascii_m_id split: if_splits)
  with t t1 x show ?thesis by blast
qed

text \<open>Each of the three patterns starts with \<^verbatim>\<open><m\<close>, so no match starts in bytes where
  no such tag opens, when the next byte opens a tag.\<close>

lemma re_search_past:
  assumes m: "\<And>t r. m t = Some r \<Longrightarrow>
        \<exists>x y t'. t = x # y # t' \<and> lower_ascii x = CHR ''<'' \<and> lower_ascii y = CHR ''m''"
    and pre: "no_m_tag pre"
    and s: "lower_ascii c = CHR ''<''"
  shows "re_search m (pre @ c # s) = re_search m (c # s)"
proof (rule re_search_skip)
  fix a b
  assume d: "pre = a @ b" and b: "b \<noteq> []"
  show "m (b @ c # s) = None"
  proof (cases "m (b @ c # s)")
    case None
    then show ?thesis .
  next
    case (Some r)
    from m [OF Some] obtain x y t' where t: "b @ c # s = x # y # t'"
      and x: "lower_ascii x = CHR ''<''" and y: "lower_ascii y = CHR ''m''" by blast
    from b obtain b0 b1 where b0: "b = b0 # b1" by (cases b) auto
    show ?thesis
    proof (cases b1)
      case Nil
      with t b0 have "y = c" by simp
      with y s show ?thesis by simp
    next
      case (Cons b2 b3)
      with t b0 have "b = x # y # b3" by simp
      with d x y have "map lower_ascii pre = map lower_ascii a @ ''<m'' @ map lower_ascii b3"
        by simp
      then have "str_contains ''<m'' (map lower_ascii pre)"
        by (simp only: str_contains_append)
      with pre show ?thesis by (simp add: no_m_tag_def)
    qed
  qed
qed

lemma meta_charset_at_opens:
  "meta_charset_at t = Some r \<Longrightarrow>
   \<exists>x y t'. t = x # y # t' \<and> lower_ascii x = CHR ''<'' \<and> lower_ascii y = CHR ''m''"
  unfolding meta_charset_at_def
  by (cases "match_lit (''<meta charset='' @ [dquote]) t") (auto dest: match_lit_two_bytes)

lemma refresh_at_opens:
  "refresh_at t = Some r \<Longrightarrow>
   \<exists>x y t'. t = x # y # t' \<and> lower_ascii x = CHR ''<'' \<and> lower_ascii y = CHR ''m''"
  unfolding refresh_at_def
  by (cases "match_lit (''<meta http-equiv='' @ [dquote] @ ''refresh'' @ [dquote]
                      @ '' content='' @ [dquote]) t") (auto dest: match_lit_two_bytes)

lemma content_type_at_opens:
  "content_type_at t = Some r \<Longrightarrow>
   \<exists>x y t'. t = x # y # t' \<and> lower_ascii x = CHR ''<'' \<and> lower_ascii y = CHR ''m''"
  unfolding content_type_at_def
  by (cases "match_lit (''<meta http-equiv='' @ [dquote] @ ''content-type'' @ [dquote]) t")
     (auto dest: match_lit_two_bytes)

lemma search_meta_charset_form:
  assumes "no_m_tag pre"
    and "map lower_ascii tag = ''<meta charset=''"
    and "name \<noteq> []" "dquote \<notin> set name"
  shows "search_meta_charset (pre @ tag @ [dquote] @ name @ [dquote] @ rest) = Some name"
proof -
  have k: "map lower_ascii (''<meta charset='' @ [dquote]) = ''<meta charset='' @ [dquote]"
    by code_simp
  have q: "lower_ascii dquote = dquote" by code_simp
  have l: "map lower_ascii (tag @ [dquote]) = map lower_ascii (''<meta charset='' @ [dquote])"
    unfolding k using assms(2) q by simp
  have m: "match_lit (''<meta charset='' @ [dquote]) (tag @ dquote # name @ dquote # rest)
             = Some (name @ dquote # rest)"
    using match_lit_same_case [OF l, of "name @ dquote # rest"] by simp
  have "meta_charset_at (tag @ dquote # name @ dquote # rest) = Some name"
    unfolding meta_charset_at_def
    by (simp only: m match_until_found [OF assms(3,4)] option.simps prod.simps fst_conv)
  then have h: "re_search meta_charset_at (tag @ [dquote] @ name @ [dquote] @ rest) = Some name"
    by (simp add: re_search_here)
  from assms(2) obtain c tag' where tg: "tag = c # tag'" and lc: "lower_ascii c = CHR ''<''"
    by (cases tag) auto
  have "re_search meta_charset_at (pre @ tag @ [dquote] @ name @ [dquote] @ rest)
      = re_search meta_charset_at (tag @ [dquote] @ name @ [dquote] @ rest)"
    unfolding tg
    using re_search_past [of meta_charset_at pre c "tag' @ [dquote] @ name @ [dquote] @ rest", OF meta_charset_at_opens assms(1) lc]
    by simp
  with h show ?thesis by (simp add: search_meta_charset_def)
qed

lemma search_refresh_form:
  assumes "no_m_tag pre"
    and "map lower_ascii tag = ''<meta http-equiv='' @ [dquote] @ ''refresh'' @ [dquote] @ '' content='' @ [dquote]"
    and "delay \<noteq> []" "CHR '';'' \<notin> set delay"
    and "list_all re_space ws"
    and "map lower_ascii url = ''url=''"
    and "target \<noteq> []" "dquote \<notin> set target"
  shows "search_refresh (pre @ tag @ delay @ '';'' @ ws @ url @ target @ [dquote] @ rest) = Some target"
proof -
  have u: "url \<noteq> [] \<and> \<not> re_space (hd url)"
  proof -
    from assms(6) obtain c cs where c: "url = c # cs" "lower_ascii c = CHR ''u''" by (cases url) auto
    have "\<not> re_space c"
    proof
      assume "re_space c"
      then have "lower_ascii c = c" by (auto simp: re_space_def lower_ascii_def)
      with c(2) \<open>re_space c\<close> show False by (simp add: re_space_def)
    qed
    with c show ?thesis by simp
  qed
  have d: "dropWhile re_space (ws @ url @ target @ dquote # rest) = url @ target @ dquote # rest"
    using assms(5) u by (induction ws) (auto simp: neq_Nil_conv)
  have k1: "map lower_ascii ''url='' = ''url=''" by code_simp
  have l: "map lower_ascii url = map lower_ascii ''url=''" unfolding k1 using assms(6) .
  have k2: "map lower_ascii (''<meta http-equiv='' @ [dquote] @ ''refresh'' @ [dquote] @ '' content='' @ [dquote])
      = ''<meta http-equiv='' @ [dquote] @ ''refresh'' @ [dquote] @ '' content='' @ [dquote]"
    by code_simp
  have t: "map lower_ascii tag = map lower_ascii (''<meta http-equiv='' @ [dquote] @ ''refresh'' @ [dquote] @ '' content='' @ [dquote])"
    unfolding k2 using assms(2) .
  have m1: "match_lit (''<meta http-equiv='' @ [dquote] @ ''refresh'' @ [dquote] @ '' content='' @ [dquote])
               (tag @ delay @ CHR '';'' # ws @ url @ target @ dquote # rest)
             = Some (delay @ CHR '';'' # ws @ url @ target @ dquote # rest)"
    by (rule match_lit_same_case [OF t])
  have m2: "match_until CHR '';'' (delay @ CHR '';'' # ws @ url @ target @ dquote # rest)
             = Some (delay, ws @ url @ target @ dquote # rest)"
    by (rule match_until_found [OF assms(3,4)])
  have m3: "match_lit ''url='' (url @ target @ dquote # rest) = Some (target @ dquote # rest)"
    by (rule match_lit_same_case [OF l])
  have m4: "match_until dquote (target @ dquote # rest) = Some (target, rest)"
    by (rule match_until_found [OF assms(7,8)])
  have "refresh_at (tag @ delay @ CHR '';'' # ws @ url @ target @ dquote # rest) = Some target"
    unfolding refresh_at_def
    by (simp only: m1 m2 d m3 m4 option.simps prod.simps fst_conv)
  then have h: "re_search refresh_at (tag @ delay @ '';'' @ ws @ url @ target @ [dquote] @ rest) = Some target"
    by (simp add: re_search_here)
  from assms(2) obtain c tag' where tg: "tag = c # tag'" and lc: "lower_ascii c = CHR ''<''"
    by (cases tag) auto
  have "re_search refresh_at (pre @ tag @ delay @ '';'' @ ws @ url @ target @ [dquote] @ rest)
      = re_search refresh_at (tag @ delay @ '';'' @ ws @ url @ target @ [dquote] @ rest)"
    unfolding tg
    using re_search_past [of refresh_at pre c "tag' @ delay @ '';'' @ ws @ url @ target @ [dquote] @ rest", OF refresh_at_opens assms(1) lc]
    by simp
  with h show ?thesis by (simp add: search_refresh_def)
qed


lemma lower_ascii_eq_sign: "lower_ascii c = CHR ''='' \<Longrightarrow> c = CHR ''=''"
proof -
  assume a: "lower_ascii c = CHR ''=''"
  show ?thesis
  proof (cases "65 \<le> (of_char c :: int) \<and> (of_char c :: int) \<le> 90")
    case True
    with a have "char_of ((of_char c :: int) + 32) = CHR ''=''" by (simp add: lower_ascii_def Let_def)
    then have "(of_char (char_of ((of_char c :: int) + 32)) :: int) = of_char CHR ''=''" by simp
    with True show ?thesis by (simp add: of_char_of)
  next
    case False
    with a show ?thesis by (auto simp: lower_ascii_def Let_def)
  qed
qed

lemma match_lit_split:
  "match_lit lit t = Some r \<Longrightarrow>
   \<exists>m. t = m @ r \<and> length m = length lit \<and> map lower_ascii m = map lower_ascii lit"
proof (induction lit t rule: match_lit.induct)
  case (1 s)
  then show ?case by simp
next
  case (2 l ls)
  then show ?case by simp
next
  case (3 l ls c cs)
  from "3.prems" have e: "lower_ascii c = lower_ascii l" and r: "match_lit ls cs = Some r"
    by (auto split: if_splits)
  from "3.IH" [OF e r] obtain m where "cs = m @ r" "length m = length ls"
    "map lower_ascii m = map lower_ascii ls" by blast
  with e have "c # cs = (c # m) @ r \<and> length (c # m) = length (l # ls)
      \<and> map lower_ascii (c # m) = map lower_ascii (l # ls)" by simp
  then show ?case by blast
qed

lemma lower_ascii_newline: "lower_ascii (CHR 0x0A) = CHR 0x0A"
  by code_simp

lemma charset_lit_lower: "map lower_ascii ''charset='' = ''charset=''"
  by code_simp

text \<open>What a match of the literal \<open>charset=\<close> consumes: eight bytes, none a newline, the
  last one the equals sign.\<close>

lemma charset_lit_split:
  assumes "match_lit ''charset='' t = Some r"
  shows "\<exists>a. t = a @ CHR ''='' # r \<and> length a = 7 \<and> CHR 0x0A \<notin> set a"
proof -
  from match_lit_split [OF assms] obtain m where t: "t = m @ r"
    and n0: "length m = length ''charset=''"
    and l0: "map lower_ascii m = map lower_ascii ''charset=''" by blast
  from n0 have n: "length m = 8" by simp
  from l0 have l: "map lower_ascii m = ''charset=''" unfolding charset_lit_lower .
  from n obtain a e where m: "m = a @ [e]" and na: "length a = 7"
    by (cases m rule: rev_cases) auto
  from l m na have le: "lower_ascii e = CHR ''=''" and la: "map lower_ascii a = ''charset''"
    by auto
  have "CHR 0x0A \<notin> set a"
  proof
    assume "CHR 0x0A \<in> set a"
    then have "lower_ascii (CHR 0x0A) \<in> set (map lower_ascii a)" by (simp add: image_iff) blast
    with la show False by (simp add: lower_ascii_newline)
  qed
  with t m na lower_ascii_eq_sign [OF le] show ?thesis by simp
qed

lemma dot_star_None:
  "(\<And>pre suf. s = pre @ suf \<Longrightarrow> CHR 0x0A \<notin> set pre \<Longrightarrow> charset_tail suf = None) \<Longrightarrow>
   dot_star s = None"
proof (induction s)
  case Nil
  from Nil [of "[]" "[]"] show ?case by simp
next
  case (Cons c cs)
  have here: "charset_tail (c # cs) = None" using Cons.prems [of "[]" "c # cs"] by simp
  show ?case
  proof (cases "c = CHR 0x0A")
    case True
    with here show ?thesis by simp
  next
    case False
    have "dot_star cs = None"
    proof (rule Cons.IH)
      fix pre suf
      assume "cs = pre @ suf" "CHR 0x0A \<notin> set pre"
      with False Cons.prems [of "c # pre" suf] show "charset_tail suf = None" by simp
    qed
    with here False show ?thesis by simp
  qed
qed

lemma dot_star_skip:
  "CHR 0x0A \<notin> set mid \<Longrightarrow> dot_star s = Some g \<Longrightarrow> dot_star (mid @ s) = Some g"
  by (induction mid) auto

text \<open>After the bytes \<open>a\<close> (seven of them, the rest of \<open>charset=\<close> after its first byte)
  no later position of the line matches when the line has no further equals sign.\<close>

lemma no_later_tail:
  assumes "length a = 7"
    and "CHR ''='' \<notin> set (takeWhile (\<lambda>c. c \<noteq> CHR 0x0A) n)"
  shows "dot_star (a @ n) = None"
proof (rule dot_star_None)
  fix pre suf
  assume d: "a @ n = pre @ suf" and p: "CHR 0x0A \<notin> set pre"
  show "charset_tail suf = None"
  proof (cases "match_lit ''charset='' suf")
    case None
    then show ?thesis by (simp add: charset_tail_def)
  next
    case (Some r)
    from charset_lit_split [OF Some] obtain b where s: "suf = b @ CHR ''='' # r"
      and nb: "length b = 7" and lb: "CHR 0x0A \<notin> set b" by blast
    from d s have e: "a @ n = (pre @ b) @ CHR ''='' # r" by simp
    from assms(1) nb have "length a \<le> length (pre @ b)" by simp
    then have g: "7 \<le> length (pre @ b)" using assms(1) by simp
    define x where "x = drop 7 (pre @ b)"
    from e have "take 7 (a @ n) = take 7 ((pre @ b) @ CHR ''='' # r)" by simp
    with assms(1) g have a: "a = take 7 (pre @ b)" by simp
    from e have "drop 7 (a @ n) = drop 7 ((pre @ b) @ CHR ''='' # r)" by simp
    with assms(1) g have n: "n = x @ CHR ''='' # r" by (simp add: x_def)
    have x: "pre @ b = a @ x" unfolding a x_def by (rule append_take_drop_id [symmetric])
    from x p lb have "CHR 0x0A \<notin> set x"
      by (metis Un_iff set_append)
    then have "takeWhile (\<lambda>c. c \<noteq> CHR 0x0A) n = x @ takeWhile (\<lambda>c. c \<noteq> CHR 0x0A) (CHR ''='' # r)"
      unfolding n by (intro takeWhile_append2) auto
    then have "CHR ''='' \<in> set (takeWhile (\<lambda>c. c \<noteq> CHR 0x0A) n)" by simp
    with assms(2) show ?thesis by simp
  qed
qed

lemma search_content_type_form:
  assumes "no_m_tag pre"
    and "map lower_ascii tag = ''<meta http-equiv='' @ [dquote] @ ''content-type'' @ [dquote]"
    and "CHR 0x0A \<notin> set mid"
    and "map lower_ascii cs = ''charset=''"
    and "name \<noteq> []" "dquote \<notin> set name"
    and "CHR ''='' \<notin> set (takeWhile (\<lambda>c. c \<noteq> CHR 0x0A) (name @ [dquote] @ rest))"
  shows "search_content_type (pre @ tag @ mid @ cs @ name @ [dquote] @ rest) = Some name"
proof -
  let ?n = "name @ dquote # rest"
  from assms(4) obtain c a where cs: "cs = c # a" and na: "length a = 7"
    and lc: "lower_ascii c = CHR ''c''"
    by (cases cs) (auto simp: length_Suc_conv)
  have cn: "c \<noteq> CHR 0x0A"
  proof
    assume "c = CHR 0x0A"
    with lc show False by (simp add: lower_ascii_newline)
  qed
  have l: "map lower_ascii cs = map lower_ascii ''charset=''"
    unfolding charset_lit_lower using assms(4) .
  have m: "match_lit ''charset='' (cs @ ?n) = Some ?n" by (rule match_lit_same_case [OF l])
  have here: "charset_tail (cs @ ?n) = Some name"
    unfolding charset_tail_def
    by (simp only: m match_until_found [OF assms(5,6)] option.simps prod.simps fst_conv)
  have later: "dot_star (a @ ?n) = None"
    using no_later_tail [OF na, of ?n] assms(7) by simp
  have "dot_star (cs @ ?n) = Some name"
    using here later cn unfolding cs by simp
  from dot_star_skip [OF assms(3) this] have ds: "dot_star (mid @ cs @ ?n) = Some name" .
  have k: "map lower_ascii (''<meta http-equiv='' @ [dquote] @ ''content-type'' @ [dquote])
      = ''<meta http-equiv='' @ [dquote] @ ''content-type'' @ [dquote]"
    by code_simp
  have t: "map lower_ascii tag
      = map lower_ascii (''<meta http-equiv='' @ [dquote] @ ''content-type'' @ [dquote])"
    unfolding k using assms(2) .
  have m1: "match_lit (''<meta http-equiv='' @ [dquote] @ ''content-type'' @ [dquote])
               (tag @ mid @ cs @ ?n) = Some (mid @ cs @ ?n)"
    by (rule match_lit_same_case [OF t])
  have "content_type_at (tag @ mid @ cs @ ?n) = Some name"
    unfolding content_type_at_def by (simp only: m1 ds option.simps)
  then have h: "re_search content_type_at (tag @ mid @ cs @ name @ [dquote] @ rest) = Some name"
    by (simp add: re_search_here)
  from assms(2) obtain c tag' where tg: "tag = c # tag'" and lc: "lower_ascii c = CHR ''<''"
    by (cases tag) auto
  have "re_search content_type_at (pre @ tag @ mid @ cs @ name @ [dquote] @ rest)
      = re_search content_type_at (tag @ mid @ cs @ name @ [dquote] @ rest)"
    unfolding tg
    using re_search_past [of content_type_at pre c "tag' @ mid @ cs @ name @ [dquote] @ rest", OF content_type_at_opens assms(1) lc]
    by simp
  with h show ?thesis by (simp add: search_content_type_def)
qed

subsection \<open>The two charset patterns, by offsets\<close>

lemma match_lit_lower:
  "map lower_ascii lit = lit \<Longrightarrow>
   match_lit lit s = (if prefix lit (map lower_ascii s) then Some (drop (length lit) s) else None)"
proof (induction lit s rule: match_lit.induct)
  case (1 s)
  then show ?case by simp
next
  case (2 l ls)
  then show ?case by simp
next
  case (3 l ls c cs)
  from "3.prems" have l: "lower_ascii l = l" and ls: "map lower_ascii ls = ls" by simp_all
  show ?case
  proof (cases "lower_ascii c = lower_ascii l")
    case True
    with "3.IH" [OF True ls] l show ?thesis by simp
  next
    case False
    with l show ?thesis by auto
  qed
qed

lemma match_until_iff:
  "match_until q s = Some (g, r) \<longleftrightarrow> g \<noteq> [] \<and> q \<notin> set g \<and> s = g @ q # r"
proof
  assume a: "match_until q s = Some (g, r)"
  let ?t = "takeWhile (\<lambda>c. c \<noteq> q) s" and ?d = "dropWhile (\<lambda>c. c \<noteq> q) s"
  from a have g: "g = ?t" and n: "?t \<noteq> []" and d: "?d \<noteq> []" and r: "r = tl ?d"
    by (auto simp: match_until_def Let_def split: if_splits)
  from d have "hd ?d = q" using hd_dropWhile [of "\<lambda>c. c \<noteq> q" s] by auto
  with d r have "?d = q # r" by (cases ?d) auto
  then have "s = ?t @ q # r" using takeWhile_dropWhile_id [of "\<lambda>c. c \<noteq> q" s] by simp
  moreover have "q \<notin> set ?t" using set_takeWhileD [of q "\<lambda>c. c \<noteq> q" s] by auto
  ultimately show "g \<noteq> [] \<and> q \<notin> set g \<and> s = g @ q # r" using g n by simp
next
  assume "g \<noteq> [] \<and> q \<notin> set g \<and> s = g @ q # r"
  then show "match_until q s = Some (g, r)" using match_until_found [of g q r] by simp
qed

lemma name_at_iff:
  "map_option fst (match_until dquote (drop j b)) = Some name \<longleftrightarrow> name_at b j name"
proof
  assume "map_option fst (match_until dquote (drop j b)) = Some name"
  then obtain r where "match_until dquote (drop j b) = Some (name, r)" by auto
  then show "name_at b j name" by (auto simp: match_until_iff name_at_def)
next
  assume a: "name_at b j name"
  then obtain r where "drop j b = (name @ [dquote]) @ r" by (auto simp: name_at_def prefix_def)
  with a have "match_until dquote (drop j b) = Some (name, r)"
    by (simp add: match_until_iff name_at_def)
  then show "map_option fst (match_until dquote (drop j b)) = Some name" by simp
qed

lemma charset_tail_iff:
  "charset_tail (drop k b) = Some name \<longleftrightarrow> lit_at ''charset='' b k \<and> name_at b (k + 8) name"
proof -
  have l: "length ''charset='' = 8" by simp
  have d: "drop 8 (drop k b) = drop (k + 8) b" by (simp add: add.commute)
  have m: "match_lit ''charset='' (drop k b)
      = (if lit_at ''charset='' b k then Some (drop (k + 8) b) else None)"
    using match_lit_lower [OF charset_lit_lower, of "drop k b"]
    unfolding l d lit_at_def .
  show ?thesis
    unfolding charset_tail_def m using name_at_iff [of "k + 8" b name] by simp
qed

lemma all_le_Suc: "(\<forall>i\<le>Suc n. P i) \<longleftrightarrow> P 0 \<and> (\<forall>j\<le>n. P (Suc j))"
proof
  assume a: "\<forall>i\<le>Suc n. P i"
  then show "P 0 \<and> (\<forall>j\<le>n. P (Suc j))" by simp
next
  assume a: "P 0 \<and> (\<forall>j\<le>n. P (Suc j))"
  show "\<forall>i\<le>Suc n. P i"
  proof (intro allI impI)
    fix i
    assume "i \<le> Suc n"
    with a show "P i" by (cases i) simp_all
  qed
qed

lemma re_search_None_iff:
  "re_search m s = None \<longleftrightarrow> (\<forall>i\<le>length s. m (drop i s) = None)"
proof (induction s)
  case Nil
  show ?case by simp
next
  case (Cons c cs)
  have "re_search m (c # cs) = None \<longleftrightarrow> m (c # cs) = None \<and> re_search m cs = None"
    by (cases "m (c # cs)") simp_all
  with Cons show ?case by (simp add: all_le_Suc)
qed

lemma re_search_Some_iff:
  "re_search m s = Some g \<longleftrightarrow>
   (\<exists>i\<le>length s. m (drop i s) = Some g \<and> (\<forall>i'<i. m (drop i' s) = None))"
proof (induction s)
  case Nil
  show ?case by simp
next
  case (Cons c cs)
  show ?case
  proof (cases "m (c # cs)")
    case (Some g')
    have "(\<exists>i\<le>length (c # cs). m (drop i (c # cs)) = Some g
            \<and> (\<forall>i'<i. m (drop i' (c # cs)) = None)) \<longleftrightarrow> g' = g"
    proof
      assume "\<exists>i\<le>length (c # cs). m (drop i (c # cs)) = Some g
            \<and> (\<forall>i'<i. m (drop i' (c # cs)) = None)"
      then obtain i where i: "m (drop i (c # cs)) = Some g"
        and n: "\<forall>i'<i. m (drop i' (c # cs)) = None" by blast
      have "i = 0"
      proof (rule ccontr)
        assume "i \<noteq> 0"
        with n have "m (drop 0 (c # cs)) = None" by blast
        with Some show False by simp
      qed
      with i Some show "g' = g" by simp
    next
      assume "g' = g"
      with Some have "m (drop 0 (c # cs)) = Some g \<and> (\<forall>i'<0. m (drop i' (c # cs)) = None)"
        by simp
      then show "\<exists>i\<le>length (c # cs). m (drop i (c # cs)) = Some g
            \<and> (\<forall>i'<i. m (drop i' (c # cs)) = None)" by blast
    qed
    with Some show ?thesis by simp
  next
    case None
    have "(\<exists>i\<le>length (c # cs). m (drop i (c # cs)) = Some g
            \<and> (\<forall>i'<i. m (drop i' (c # cs)) = None))
        \<longleftrightarrow> (\<exists>i\<le>length cs. m (drop i cs) = Some g \<and> (\<forall>i'<i. m (drop i' cs) = None))"
    proof
      assume "\<exists>i\<le>length (c # cs). m (drop i (c # cs)) = Some g
            \<and> (\<forall>i'<i. m (drop i' (c # cs)) = None)"
      then obtain i where l: "i \<le> length (c # cs)" and i: "m (drop i (c # cs)) = Some g"
        and n: "\<forall>i'<i. m (drop i' (c # cs)) = None" by blast
      from i None obtain j where j: "i = Suc j" by (cases i) simp_all
      have "\<forall>i'<j. m (drop i' cs) = None"
      proof (intro allI impI)
        fix i'
        assume "i' < j"
        then have "Suc i' < i" using j by simp
        with n have "m (drop (Suc i') (c # cs)) = None" by blast
        then show "m (drop i' cs) = None" by simp
      qed
      with l i j show "\<exists>i\<le>length cs. m (drop i cs) = Some g \<and> (\<forall>i'<i. m (drop i' cs) = None)"
        by auto
    next
      assume "\<exists>i\<le>length cs. m (drop i cs) = Some g \<and> (\<forall>i'<i. m (drop i' cs) = None)"
      then obtain j where l: "j \<le> length cs" and i: "m (drop j cs) = Some g"
        and n: "\<forall>i'<j. m (drop i' cs) = None" by blast
      have "\<forall>i'<Suc j. m (drop i' (c # cs)) = None"
      proof (intro allI impI)
        fix i'
        assume a: "i' < Suc j"
        show "m (drop i' (c # cs)) = None"
        proof (cases i')
          case 0
          with None show ?thesis by simp
        next
          case (Suc k)
          with a have "k < j" by simp
          with n have "m (drop k cs) = None" by blast
          with Suc show ?thesis by simp
        qed
      qed
      with l i have "Suc j \<le> length (c # cs) \<and> m (drop (Suc j) (c # cs)) = Some g
          \<and> (\<forall>i'<Suc j. m (drop i' (c # cs)) = None)" by simp
      then show "\<exists>i\<le>length (c # cs). m (drop i (c # cs)) = Some g
            \<and> (\<forall>i'<i. m (drop i' (c # cs)) = None)" by blast
    qed
    with None Cons show ?thesis by simp
  qed
qed

lemma dot_star_None_iff:
  "dot_star s = None \<longleftrightarrow>
   (\<forall>j\<le>length s. CHR 0x0A \<notin> set (take j s) \<longrightarrow> charset_tail (drop j s) = None)"
proof (induction s)
  case Nil
  show ?case by simp
next
  case (Cons c cs)
  show ?case
  proof (cases "c = CHR 0x0A")
    case True
    then show ?thesis by (simp add: all_le_Suc)
  next
    case False
    have "dot_star (c # cs) = None \<longleftrightarrow> charset_tail (c # cs) = None \<and> dot_star cs = None"
      using False by (cases "dot_star cs") simp_all
    with Cons False show ?thesis by (simp add: all_le_Suc)
  qed
qed

lemma dot_star_Some_iff:
  "dot_star s = Some g \<longleftrightarrow>
   (\<exists>j\<le>length s. CHR 0x0A \<notin> set (take j s) \<and> charset_tail (drop j s) = Some g
       \<and> (\<forall>j'\<le>length s. j < j' \<and> CHR 0x0A \<notin> set (take j' s) \<longrightarrow>
             charset_tail (drop j' s) = None))"
proof (induction s arbitrary: g)
  case Nil
  show ?case by auto
next
  case (Cons c cs)
  show ?case
  proof (cases "c = CHR 0x0A")
    case True
    have "(\<exists>j\<le>length (c # cs). CHR 0x0A \<notin> set (take j (c # cs))
            \<and> charset_tail (drop j (c # cs)) = Some g
            \<and> (\<forall>j'\<le>length (c # cs). j < j' \<and> CHR 0x0A \<notin> set (take j' (c # cs)) \<longrightarrow>
                  charset_tail (drop j' (c # cs)) = None))
        \<longleftrightarrow> charset_tail (c # cs) = Some g"
    proof
      assume "\<exists>j\<le>length (c # cs). CHR 0x0A \<notin> set (take j (c # cs))
            \<and> charset_tail (drop j (c # cs)) = Some g
            \<and> (\<forall>j'\<le>length (c # cs). j < j' \<and> CHR 0x0A \<notin> set (take j' (c # cs)) \<longrightarrow>
                  charset_tail (drop j' (c # cs)) = None)"
      then obtain j where n: "CHR 0x0A \<notin> set (take j (c # cs))"
        and t: "charset_tail (drop j (c # cs)) = Some g" by blast
      from n True have "j = 0" by (cases j) simp_all
      with t show "charset_tail (c # cs) = Some g" by simp
    next
      assume t: "charset_tail (c # cs) = Some g"
      have "\<forall>j'\<le>length (c # cs). 0 < j' \<and> CHR 0x0A \<notin> set (take j' (c # cs)) \<longrightarrow>
                  charset_tail (drop j' (c # cs)) = None"
      proof (intro allI impI)
        fix j'
        assume "j' \<le> length (c # cs)" and a: "0 < j' \<and> CHR 0x0A \<notin> set (take j' (c # cs))"
        then obtain k where "j' = Suc k" by (cases j') auto
        with a True show "charset_tail (drop j' (c # cs)) = None" by simp
      qed
      with t have "0 \<le> length (c # cs) \<and> CHR 0x0A \<notin> set (take 0 (c # cs))
            \<and> charset_tail (drop 0 (c # cs)) = Some g
            \<and> (\<forall>j'\<le>length (c # cs). 0 < j' \<and> CHR 0x0A \<notin> set (take j' (c # cs)) \<longrightarrow>
                  charset_tail (drop j' (c # cs)) = None)" by simp
      then show "\<exists>j\<le>length (c # cs). CHR 0x0A \<notin> set (take j (c # cs))
            \<and> charset_tail (drop j (c # cs)) = Some g
            \<and> (\<forall>j'\<le>length (c # cs). j < j' \<and> CHR 0x0A \<notin> set (take j' (c # cs)) \<longrightarrow>
                  charset_tail (drop j' (c # cs)) = None)" by blast
    qed
    with True show ?thesis by simp
  next
    case False
    show ?thesis
    proof (cases "dot_star cs")
      case None
      from None have none: "\<And>j. j \<le> length cs \<Longrightarrow> CHR 0x0A \<notin> set (take j cs) \<Longrightarrow>
          charset_tail (drop j cs) = None"
        by (simp add: dot_star_None_iff)
      have "(\<exists>j\<le>length (c # cs). CHR 0x0A \<notin> set (take j (c # cs))
            \<and> charset_tail (drop j (c # cs)) = Some g
            \<and> (\<forall>j'\<le>length (c # cs). j < j' \<and> CHR 0x0A \<notin> set (take j' (c # cs)) \<longrightarrow>
                  charset_tail (drop j' (c # cs)) = None))
        \<longleftrightarrow> charset_tail (c # cs) = Some g"
      proof
        assume "\<exists>j\<le>length (c # cs). CHR 0x0A \<notin> set (take j (c # cs))
            \<and> charset_tail (drop j (c # cs)) = Some g
            \<and> (\<forall>j'\<le>length (c # cs). j < j' \<and> CHR 0x0A \<notin> set (take j' (c # cs)) \<longrightarrow>
                  charset_tail (drop j' (c # cs)) = None)"
        then obtain j where l: "j \<le> length (c # cs)"
          and n: "CHR 0x0A \<notin> set (take j (c # cs))"
          and t: "charset_tail (drop j (c # cs)) = Some g" by blast
        have "j = 0"
        proof (cases j)
          case 0
          then show ?thesis .
        next
          case (Suc k)
          with l n have "k \<le> length cs" "CHR 0x0A \<notin> set (take k cs)" by simp_all
          from none [OF this] t Suc show ?thesis by simp
        qed
        with t show "charset_tail (c # cs) = Some g" by simp
      next
        assume t: "charset_tail (c # cs) = Some g"
        have "\<forall>j'\<le>length (c # cs). 0 < j' \<and> CHR 0x0A \<notin> set (take j' (c # cs)) \<longrightarrow>
                  charset_tail (drop j' (c # cs)) = None"
        proof (intro allI impI)
          fix j'
          assume l: "j' \<le> length (c # cs)"
            and a: "0 < j' \<and> CHR 0x0A \<notin> set (take j' (c # cs))"
          then obtain k where k: "j' = Suc k" by (cases j') auto
          with l a have "k \<le> length cs" "CHR 0x0A \<notin> set (take k cs)" by simp_all
          from none [OF this] k show "charset_tail (drop j' (c # cs)) = None" by simp
        qed
        with t have "0 \<le> length (c # cs) \<and> CHR 0x0A \<notin> set (take 0 (c # cs))
            \<and> charset_tail (drop 0 (c # cs)) = Some g
            \<and> (\<forall>j'\<le>length (c # cs). 0 < j' \<and> CHR 0x0A \<notin> set (take j' (c # cs)) \<longrightarrow>
                  charset_tail (drop j' (c # cs)) = None)" by simp
        then show "\<exists>j\<le>length (c # cs). CHR 0x0A \<notin> set (take j (c # cs))
            \<and> charset_tail (drop j (c # cs)) = Some g
            \<and> (\<forall>j'\<le>length (c # cs). j < j' \<and> CHR 0x0A \<notin> set (take j' (c # cs)) \<longrightarrow>
                  charset_tail (drop j' (c # cs)) = None)" by blast
      qed
      with None False show ?thesis by simp
    next
      case (Some g')
      from Cons [of g'] Some obtain j0 where l0: "j0 \<le> length cs"
        and n0: "CHR 0x0A \<notin> set (take j0 cs)"
        and t0: "charset_tail (drop j0 cs) = Some g'" by auto
      have "(\<exists>j\<le>length (c # cs). CHR 0x0A \<notin> set (take j (c # cs))
            \<and> charset_tail (drop j (c # cs)) = Some g
            \<and> (\<forall>j'\<le>length (c # cs). j < j' \<and> CHR 0x0A \<notin> set (take j' (c # cs)) \<longrightarrow>
                  charset_tail (drop j' (c # cs)) = None))
        \<longleftrightarrow> dot_star cs = Some g"
      proof
        assume "\<exists>j\<le>length (c # cs). CHR 0x0A \<notin> set (take j (c # cs))
            \<and> charset_tail (drop j (c # cs)) = Some g
            \<and> (\<forall>j'\<le>length (c # cs). j < j' \<and> CHR 0x0A \<notin> set (take j' (c # cs)) \<longrightarrow>
                  charset_tail (drop j' (c # cs)) = None)"
        then obtain j where l: "j \<le> length (c # cs)"
          and n: "CHR 0x0A \<notin> set (take j (c # cs))"
          and t: "charset_tail (drop j (c # cs)) = Some g"
          and m: "\<forall>j'\<le>length (c # cs). j < j' \<and> CHR 0x0A \<notin> set (take j' (c # cs)) \<longrightarrow>
                  charset_tail (drop j' (c # cs)) = None" by blast
        have "j \<noteq> 0"
        proof
          assume "j = 0"
          with l0 n0 False have "Suc j0 \<le> length (c # cs)
              \<and> j < Suc j0 \<and> CHR 0x0A \<notin> set (take (Suc j0) (c # cs))" by simp
          with m have "charset_tail (drop (Suc j0) (c # cs)) = None" by blast
          with t0 show False by simp
        qed
        then obtain k where k: "j = Suc k" by (cases j) auto
        with l n t have lk: "k \<le> length cs" and nk: "CHR 0x0A \<notin> set (take k cs)"
          and tk: "charset_tail (drop k cs) = Some g" by simp_all
        have "\<forall>j'\<le>length cs. k < j' \<and> CHR 0x0A \<notin> set (take j' cs) \<longrightarrow>
                  charset_tail (drop j' cs) = None"
        proof (intro allI impI)
          fix j'
          assume "j' \<le> length cs" and "k < j' \<and> CHR 0x0A \<notin> set (take j' cs)"
          with k False have "Suc j' \<le> length (c # cs)
              \<and> j < Suc j' \<and> CHR 0x0A \<notin> set (take (Suc j') (c # cs))" by simp
          with m have "charset_tail (drop (Suc j') (c # cs)) = None" by blast
          then show "charset_tail (drop j' cs) = None" by simp
        qed
        with lk nk tk show "dot_star cs = Some g" unfolding Cons [of g] by blast
      next
        assume "dot_star cs = Some g"
        then obtain k where lk: "k \<le> length cs" and nk: "CHR 0x0A \<notin> set (take k cs)"
          and tk: "charset_tail (drop k cs) = Some g"
          and mk: "\<forall>j'\<le>length cs. k < j' \<and> CHR 0x0A \<notin> set (take j' cs) \<longrightarrow>
                  charset_tail (drop j' cs) = None"
          unfolding Cons [of g] by blast
        have "\<forall>j'\<le>length (c # cs). Suc k < j' \<and> CHR 0x0A \<notin> set (take j' (c # cs)) \<longrightarrow>
                  charset_tail (drop j' (c # cs)) = None"
        proof (intro allI impI)
          fix j'
          assume l: "j' \<le> length (c # cs)"
            and a: "Suc k < j' \<and> CHR 0x0A \<notin> set (take j' (c # cs))"
          then obtain i where i: "j' = Suc i" by (cases j') auto
          with l a have "i \<le> length cs \<and> k < i \<and> CHR 0x0A \<notin> set (take i cs)" by simp
          with mk have "charset_tail (drop i cs) = None" by blast
          with i show "charset_tail (drop j' (c # cs)) = None" by simp
        qed
        with lk nk tk False have "Suc k \<le> length (c # cs)
            \<and> CHR 0x0A \<notin> set (take (Suc k) (c # cs))
            \<and> charset_tail (drop (Suc k) (c # cs)) = Some g
            \<and> (\<forall>j'\<le>length (c # cs). Suc k < j' \<and> CHR 0x0A \<notin> set (take j' (c # cs)) \<longrightarrow>
                  charset_tail (drop j' (c # cs)) = None)" by simp
        then show "\<exists>j\<le>length (c # cs). CHR 0x0A \<notin> set (take j (c # cs))
            \<and> charset_tail (drop j (c # cs)) = Some g
            \<and> (\<forall>j'\<le>length (c # cs). j < j' \<and> CHR 0x0A \<notin> set (take j' (c # cs)) \<longrightarrow>
                  charset_tail (drop j' (c # cs)) = None)" by blast
      qed
      with Some False show ?thesis by simp
    qed
  qed
qed

lemma content_type_lit_lower:
  "map lower_ascii (''<meta http-equiv='' @ [dquote] @ ''content-type'' @ [dquote])
     = ''<meta http-equiv='' @ [dquote] @ ''content-type'' @ [dquote]"
  by code_simp

lemma meta_charset_lit_lower:
  "map lower_ascii (''<meta charset='' @ [dquote]) = ''<meta charset='' @ [dquote]"
  by code_simp

lemma content_type_at_drop:
  "content_type_at (drop i b)
     = (if lit_at (''<meta http-equiv='' @ [dquote] @ ''content-type'' @ [dquote]) b i
        then dot_star (drop (i + 31) b) else None)"
proof -
  have l: "length (''<meta http-equiv='' @ [dquote] @ ''content-type'' @ [dquote]) = 31" by simp
  have d: "drop 31 (drop i b) = drop (i + 31) b" by (simp add: add.commute)
  have m: "match_lit (''<meta http-equiv='' @ [dquote] @ ''content-type'' @ [dquote]) (drop i b)
      = (if lit_at (''<meta http-equiv='' @ [dquote] @ ''content-type'' @ [dquote]) b i
         then Some (drop (i + 31) b) else None)"
    using match_lit_lower [OF content_type_lit_lower, of "drop i b"]
    unfolding l d lit_at_def .
  show ?thesis unfolding content_type_at_def m by simp
qed

lemma meta_charset_at_drop:
  "meta_charset_at (drop i b) = Some name \<longleftrightarrow> meta_charset_match b i name"
proof -
  have l: "length (''<meta charset='' @ [dquote]) = 15" by simp
  have d: "drop 15 (drop i b) = drop (i + 15) b" by (simp add: add.commute)
  have m: "match_lit (''<meta charset='' @ [dquote]) (drop i b)
      = (if lit_at (''<meta charset='' @ [dquote]) b i then Some (drop (i + 15) b) else None)"
    using match_lit_lower [OF meta_charset_lit_lower, of "drop i b"]
    unfolding l d lit_at_def .
  show ?thesis
    unfolding meta_charset_at_def m meta_charset_match_def
    using name_at_iff [of "i + 15" b name] by simp
qed

lemma lit_at_length: "lit_at lit b i \<Longrightarrow> lit \<noteq> [] \<Longrightarrow> i + length lit \<le> length b"
proof -
  assume a: "lit_at lit b i" and n: "lit \<noteq> []"
  from a have "length lit \<le> length (map lower_ascii (drop i b))"
    unfolding lit_at_def by (rule prefix_length_le)
  then have "length lit \<le> length b - i" by simp
  moreover from n have "0 < length lit" by simp
  ultimately show ?thesis by arith
qed

text \<open>Where the second pattern matches from offset \<open>i\<close>: at the last \<^verbatim>\<open>charset=\<close> of the
  line that has a name.\<close>

lemma content_type_at_Some_iff:
  "content_type_at (drop i b) = Some name \<longleftrightarrow>
   (\<exists>k. content_type_match b i k name
       \<and> (\<forall>k' n'. content_type_match b i k' n' \<longrightarrow> k' \<le> k))"
proof (cases "lit_at (''<meta http-equiv='' @ [dquote] @ ''content-type'' @ [dquote]) b i")
  case False
  then show ?thesis by (simp add: content_type_at_drop content_type_match_def)
next
  case True
  let ?p = "i + 31"
  from lit_at_length [OF True] have pl: "?p \<le> length b" by simp
  have c: "content_type_at (drop i b) = dot_star (drop ?p b)"
    using True by (simp add: content_type_at_drop)
  have dd: "\<And>j. drop j (drop ?p b) = drop (?p + j) b" by (simp add: add.commute)
  have m: "\<And>k n. content_type_match b i k n \<longleftrightarrow>
      ?p \<le> k \<and> k \<le> length b \<and> CHR 0x0A \<notin> set (take (k - ?p) (drop ?p b))
      \<and> charset_tail (drop k b) = Some n"
    using True by (auto simp: content_type_match_def same_line_def charset_tail_iff)
  show ?thesis
  proof
    assume "content_type_at (drop i b) = Some name"
    then have "dot_star (drop ?p b) = Some name" unfolding c .
    then obtain j where l: "j \<le> length (drop ?p b)"
      and n: "CHR 0x0A \<notin> set (take j (drop ?p b))"
      and t: "charset_tail (drop j (drop ?p b)) = Some name"
      and x: "\<forall>j'\<le>length (drop ?p b). j < j' \<and> CHR 0x0A \<notin> set (take j' (drop ?p b)) \<longrightarrow>
             charset_tail (drop j' (drop ?p b)) = None"
      unfolding dot_star_Some_iff by blast
    from l pl n t have k: "content_type_match b i (?p + j) name"
      unfolding m dd by simp
    have "\<forall>k' n'. content_type_match b i k' n' \<longrightarrow> k' \<le> ?p + j"
    proof (intro allI impI)
      fix k' n'
      assume "content_type_match b i k' n'"
      then have a: "?p \<le> k'" "k' \<le> length b"
        "CHR 0x0A \<notin> set (take (k' - ?p) (drop ?p b))"
        "charset_tail (drop k' b) = Some n'"
        unfolding m by simp_all
      show "k' \<le> ?p + j"
      proof (rule ccontr)
        assume "\<not> k' \<le> ?p + j"
        with a(1,2) have "k' - ?p \<le> length b - ?p \<and> j < k' - ?p" by arith
        with a(3) have "k' - ?p \<le> length (drop ?p b) \<and> j < k' - ?p
            \<and> CHR 0x0A \<notin> set (take (k' - ?p) (drop ?p b))" by simp
        with x have "charset_tail (drop (k' - ?p) (drop ?p b)) = None" by blast
        with a show False unfolding dd by simp
      qed
    qed
    with k show "\<exists>k. content_type_match b i k name
       \<and> (\<forall>k' n'. content_type_match b i k' n' \<longrightarrow> k' \<le> k)" by blast
  next
    assume "\<exists>k. content_type_match b i k name
       \<and> (\<forall>k' n'. content_type_match b i k' n' \<longrightarrow> k' \<le> k)"
    then obtain k where k: "content_type_match b i k name"
      and x: "\<forall>k' n'. content_type_match b i k' n' \<longrightarrow> k' \<le> k" by blast
    from k have a: "?p \<le> k" "k \<le> length b"
      "CHR 0x0A \<notin> set (take (k - ?p) (drop ?p b))"
      "charset_tail (drop k b) = Some name"
      unfolding m by simp_all
    have "\<forall>j'\<le>length (drop ?p b). k - ?p < j' \<and> CHR 0x0A \<notin> set (take j' (drop ?p b)) \<longrightarrow>
             charset_tail (drop j' (drop ?p b)) = None"
    proof (intro allI impI)
      fix j'
      assume l: "j' \<le> length (drop ?p b)"
        and b: "k - ?p < j' \<and> CHR 0x0A \<notin> set (take j' (drop ?p b))"
      show "charset_tail (drop j' (drop ?p b)) = None"
      proof (cases "charset_tail (drop j' (drop ?p b))")
        case None
        then show ?thesis .
      next
        case (Some n')
        with l b pl have "content_type_match b i (?p + j') n'"
          unfolding m dd by simp
        with x have "?p + j' \<le> k" by blast
        moreover from b have "k - ?p < j'" by simp
        ultimately have False by arith
        then show ?thesis ..
      qed
    qed
    with a have "k - ?p \<le> length (drop ?p b)
        \<and> CHR 0x0A \<notin> set (take (k - ?p) (drop ?p b))
        \<and> charset_tail (drop (k - ?p) (drop ?p b)) = Some name
        \<and> (\<forall>j'\<le>length (drop ?p b). k - ?p < j' \<and> CHR 0x0A \<notin> set (take j' (drop ?p b)) \<longrightarrow>
             charset_tail (drop j' (drop ?p b)) = None)"
      unfolding dd by simp
    then have "dot_star (drop ?p b) = Some name" unfolding dot_star_Some_iff by blast
    then show "content_type_at (drop i b) = Some name" unfolding c .
  qed
qed

lemma content_type_at_None_iff:
  "content_type_at (drop i b) = None \<longleftrightarrow> (\<forall>k n. \<not> content_type_match b i k n)"
proof
  assume n: "content_type_at (drop i b) = None"
  show "\<forall>k n. \<not> content_type_match b i k n"
  proof (intro allI notI)
    fix k n'
    assume a: "content_type_match b i k n'"
    let ?p = "i + 31"
    from a have t: "lit_at (''<meta http-equiv='' @ [dquote] @ ''content-type'' @ [dquote]) b i"
      and s: "same_line b ?p k" and c: "charset_tail (drop k b) = Some n'"
      by (simp_all add: content_type_match_def charset_tail_iff)
    from n t have "dot_star (drop ?p b) = None" by (simp add: content_type_at_drop)
    moreover from s have "k - ?p \<le> length b - ?p" unfolding same_line_def by arith
    then have "k - ?p \<le> length (drop ?p b)" by simp
    moreover from s have "CHR 0x0A \<notin> set (take (k - ?p) (drop ?p b))"
      by (simp add: same_line_def)
    ultimately have "charset_tail (drop (k - ?p) (drop ?p b)) = None"
      unfolding dot_star_None_iff by blast
    moreover from s have "drop (k - ?p) (drop ?p b) = drop k b" by (simp add: same_line_def)
    ultimately show False using c by simp
  qed
next
  assume a: "\<forall>k n. \<not> content_type_match b i k n"
  show "content_type_at (drop i b) = None"
  proof (cases "content_type_at (drop i b)")
    case None
    then show ?thesis .
  next
    case (Some n)
    then obtain k where "content_type_match b i k n" unfolding content_type_at_Some_iff by blast
    with a show ?thesis by blast
  qed
qed

text \<open>What the two searches find.\<close>

lemma search_content_type_Some_iff:
  "search_content_type b = Some name \<longleftrightarrow>
   (\<exists>i k. content_type_match b i k name
       \<and> (\<forall>i' k' n'. content_type_match b i' k' n' \<longrightarrow> i < i' \<or> (i' = i \<and> k' \<le> k)))"
proof
  assume "search_content_type b = Some name"
  then obtain i where h: "content_type_at (drop i b) = Some name"
    and e: "\<forall>i'<i. content_type_at (drop i' b) = None"
    unfolding search_content_type_def re_search_Some_iff by blast
  from h obtain k where k: "content_type_match b i k name"
    and x: "\<forall>k' n'. content_type_match b i k' n' \<longrightarrow> k' \<le> k"
    unfolding content_type_at_Some_iff by blast
  have "\<forall>i' k' n'. content_type_match b i' k' n' \<longrightarrow> i < i' \<or> (i' = i \<and> k' \<le> k)"
  proof (intro allI impI)
    fix i' k' n'
    assume a: "content_type_match b i' k' n'"
    have "\<not> i' < i"
    proof
      assume "i' < i"
      with e have "content_type_at (drop i' b) = None" by blast
      with a show False unfolding content_type_at_None_iff by blast
    qed
    moreover have "i' = i \<longrightarrow> k' \<le> k" using a x by blast
    ultimately show "i < i' \<or> (i' = i \<and> k' \<le> k)" by arith
  qed
  with k show "\<exists>i k. content_type_match b i k name
       \<and> (\<forall>i' k' n'. content_type_match b i' k' n' \<longrightarrow> i < i' \<or> (i' = i \<and> k' \<le> k))"
    by blast
next
  assume "\<exists>i k. content_type_match b i k name
       \<and> (\<forall>i' k' n'. content_type_match b i' k' n' \<longrightarrow> i < i' \<or> (i' = i \<and> k' \<le> k))"
  then obtain i k where k: "content_type_match b i k name"
    and x: "\<forall>i' k' n'. content_type_match b i' k' n' \<longrightarrow> i < i' \<or> (i' = i \<and> k' \<le> k)"
    by blast
  from k have "lit_at (''<meta http-equiv='' @ [dquote] @ ''content-type'' @ [dquote]) b i"
    by (simp add: content_type_match_def)
  from lit_at_length [OF this] have l: "i \<le> length b" by simp
  from x have "\<forall>k' n'. content_type_match b i k' n' \<longrightarrow> k' \<le> k" by blast
  with k have h: "content_type_at (drop i b) = Some name"
    unfolding content_type_at_Some_iff by blast
  have "\<forall>i'<i. content_type_at (drop i' b) = None"
  proof (intro allI impI)
    fix i'
    assume "i' < i"
    with x have "\<forall>k n. \<not> content_type_match b i' k n" by fastforce
    then show "content_type_at (drop i' b) = None" unfolding content_type_at_None_iff .
  qed
  with l h show "search_content_type b = Some name"
    unfolding search_content_type_def re_search_Some_iff by blast
qed

lemma search_content_type_None_iff:
  "search_content_type b = None \<longleftrightarrow> (\<forall>i k n. \<not> content_type_match b i k n)"
proof
  assume n: "search_content_type b = None"
  show "\<forall>i k n. \<not> content_type_match b i k n"
  proof (intro allI notI)
    fix i k n'
    assume a: "content_type_match b i k n'"
    then have "lit_at (''<meta http-equiv='' @ [dquote] @ ''content-type'' @ [dquote]) b i"
      by (simp add: content_type_match_def)
    from lit_at_length [OF this] have "i \<le> length b" by simp
    with n have "content_type_at (drop i b) = None"
      unfolding search_content_type_def re_search_None_iff by blast
    with a show False unfolding content_type_at_None_iff by blast
  qed
next
  assume "\<forall>i k n. \<not> content_type_match b i k n"
  then have "\<forall>i\<le>length b. content_type_at (drop i b) = None"
    unfolding content_type_at_None_iff by blast
  then show "search_content_type b = None"
    unfolding search_content_type_def re_search_None_iff .
qed

lemma meta_charset_at_None_iff:
  "meta_charset_at (drop i b) = None \<longleftrightarrow> (\<forall>n. \<not> meta_charset_match b i n)"
  using meta_charset_at_drop [of i b] by (cases "meta_charset_at (drop i b)") auto

lemma search_meta_charset_Some_iff:
  "search_meta_charset b = Some name \<longleftrightarrow>
   (\<exists>i. meta_charset_match b i name \<and> (\<forall>i' n'. meta_charset_match b i' n' \<longrightarrow> i \<le> i'))"
proof
  assume "search_meta_charset b = Some name"
  then obtain i where h: "meta_charset_at (drop i b) = Some name"
    and e: "\<forall>i'<i. meta_charset_at (drop i' b) = None"
    unfolding search_meta_charset_def re_search_Some_iff by blast
  have "\<forall>i' n'. meta_charset_match b i' n' \<longrightarrow> i \<le> i'"
  proof (intro allI impI)
    fix i' n'
    assume a: "meta_charset_match b i' n'"
    show "i \<le> i'"
    proof (rule ccontr)
      assume "\<not> i \<le> i'"
      with e have "meta_charset_at (drop i' b) = None" by simp
      with a show False unfolding meta_charset_at_None_iff by blast
    qed
  qed
  with h show "\<exists>i. meta_charset_match b i name
      \<and> (\<forall>i' n'. meta_charset_match b i' n' \<longrightarrow> i \<le> i')"
    unfolding meta_charset_at_drop by blast
next
  assume "\<exists>i. meta_charset_match b i name
      \<and> (\<forall>i' n'. meta_charset_match b i' n' \<longrightarrow> i \<le> i')"
  then obtain i where k: "meta_charset_match b i name"
    and x: "\<forall>i' n'. meta_charset_match b i' n' \<longrightarrow> i \<le> i'" by blast
  from k have "lit_at (''<meta charset='' @ [dquote]) b i" by (simp add: meta_charset_match_def)
  from lit_at_length [OF this] have l: "i \<le> length b" by simp
  have "\<forall>i'<i. meta_charset_at (drop i' b) = None"
  proof (intro allI impI)
    fix i'
    assume "i' < i"
    with x have "\<forall>n. \<not> meta_charset_match b i' n" by fastforce
    then show "meta_charset_at (drop i' b) = None" unfolding meta_charset_at_None_iff .
  qed
  with l k show "search_meta_charset b = Some name"
    unfolding search_meta_charset_def re_search_Some_iff meta_charset_at_drop by blast
qed

lemma search_meta_charset_None_iff:
  "search_meta_charset b = None \<longleftrightarrow> (\<forall>i n. \<not> meta_charset_match b i n)"
proof
  assume n: "search_meta_charset b = None"
  show "\<forall>i n. \<not> meta_charset_match b i n"
  proof (intro allI notI)
    fix i n'
    assume a: "meta_charset_match b i n'"
    then have "lit_at (''<meta charset='' @ [dquote]) b i" by (simp add: meta_charset_match_def)
    from lit_at_length [OF this] have "i \<le> length b" by simp
    with n have "meta_charset_at (drop i b) = None"
      unfolding search_meta_charset_def re_search_None_iff by blast
    with a show False unfolding meta_charset_at_None_iff by blast
  qed
next
  assume "\<forall>i n. \<not> meta_charset_match b i n"
  then have "\<forall>i\<le>length b. meta_charset_at (drop i b) = None"
    unfolding meta_charset_at_None_iff by blast
  then show "search_meta_charset b = None"
    unfolding search_meta_charset_def re_search_None_iff .
qed

subsection \<open>Redirection\<close>

lemma decode_ascii_Inr:
  "list_all (\<lambda>c. (of_char c :: int) < 128) b \<Longrightarrow> decode_ascii b = Inr b"
  by (simp add: decode_ascii_def)

lemma ref_urlunparse_netloc:
  "netloc \<noteq> [] \<Longrightarrow> scheme \<noteq> [] \<Longrightarrow> target \<noteq> [] \<Longrightarrow>
   ref_urlunparse scheme netloc target =
     scheme @ ''://'' @ netloc @ (if take 1 target = ''/'' then target else ''/'' @ target)"
  by (simp add: ref_urlunparse_def)

lemma fetch_contents_second_request:
  assumes "urlopen L uri = Inr r1"
    and "search_refresh (body r1) = Some target"
    and "list_all (\<lambda>c. (of_char c :: int) < 128) target"
    and "urlparse L uri = (scheme, netloc)"
  shows "fetch_contents L uri =
           ([uri, urlunparse L scheme netloc target],
            case urlopen L (urlunparse L scheme netloc target) of
              Inl e \<Rightarrow> Inl (reraise e)
            | Inr r2 \<Rightarrow> Inr r2)"
  using assms by (simp add: fetch_contents_def decode_ascii_Inr split: sum.splits)

text \<open>
  C1, as the code has it. When the body of the first response matches the meta-refresh
  pattern and the target is made of ASCII bytes only, the fetcher makes a second request,
  whatever becomes of it, for the URI that \<^verbatim>\<open>urlunparse\<close> builds from the scheme and the
  netloc of the original URI with the target as the whole path and with empty parameters,
  query and fragment; the original path, query and fragment play no part. When that
  request succeeds, the result is the body of the second response decoded with the charset
  found for the second response, its header charset first; nothing of the first response
  is used. When it raises, the exception leaves the function as the \<^verbatim>\<open>except\<close> clause
  passes it on. With a scheme and a netloc the URI is the scheme, \<^verbatim>\<open>://\<close>, the netloc and
  the target, with a slash put before a target that does not start with one. The pattern
  finds the target \<open>tgt\<close> in a body that has, after bytes where no tag with a name in m
  opens, the open tag with its two attributes in any case of the letters, a delay with no
  semicolon, the semicolon, any whitespace, \<^verbatim>\<open>url=\<close> in any case, the target and a double
  quote.
\<close>

theorem meta_refresh_redirect:
  assumes "urlopen L uri = Inr r1"
    and "search_refresh (body r1) = Some target"
    and "list_all (\<lambda>c. (of_char c :: int) < 128) target"
    and "urlparse L uri = (scheme, netloc)"
  shows "fst (fetch_contents L uri) = [uri, urlunparse L scheme netloc target]
       \<and> snd (fetch_contents L uri) =
           (case urlopen L (urlunparse L scheme netloc target) of
              Inl e \<Rightarrow> Inl (reraise e)
            | Inr r2 \<Rightarrow> Inr r2)
       \<and> retrieve_uri_contents L uri =
           (case urlopen L (urlunparse L scheme netloc target) of
              Inl e \<Rightarrow> Inl (reraise e)
            | Inr r2 \<Rightarrow>
                (case determine_charset (content_charset r2) (body r2) of
                   Inl e \<Rightarrow> Inl e
                 | Inr charset \<Rightarrow> bytes_decode L (body r2) charset))
       \<and> (scheme \<noteq> [] \<and> netloc \<noteq> [] \<and> target \<noteq> [] \<longrightarrow>
            ref_urlunparse scheme netloc target =
              scheme @ ''://'' @ netloc
              @ (if take 1 target = ''/'' then target else ''/'' @ target))
       \<and> (no_m_tag pre
            \<and> map lower_ascii tag = ''<meta http-equiv='' @ [dquote] @ ''refresh'' @ [dquote]
                                      @ '' content='' @ [dquote]
            \<and> delay \<noteq> [] \<and> CHR '';'' \<notin> set delay \<and> list_all re_space ws
            \<and> map lower_ascii url = ''url='' \<and> tgt \<noteq> [] \<and> dquote \<notin> set tgt \<longrightarrow>
            search_refresh (pre @ tag @ delay @ '';'' @ ws @ url @ tgt @ [dquote] @ rest)
              = Some tgt)"
proof -
  note f = fetch_contents_second_request [OF assms]
  have c1: "fst (fetch_contents L uri) = [uri, urlunparse L scheme netloc target]"
    unfolding f by simp
  have c2: "snd (fetch_contents L uri) =
           (case urlopen L (urlunparse L scheme netloc target) of
              Inl e \<Rightarrow> Inl (reraise e)
            | Inr r2 \<Rightarrow> Inr r2)"
    unfolding f by simp
  have c3: "retrieve_uri_contents L uri =
           (case urlopen L (urlunparse L scheme netloc target) of
              Inl e \<Rightarrow> Inl (reraise e)
            | Inr r2 \<Rightarrow>
                (case determine_charset (content_charset r2) (body r2) of
                   Inl e \<Rightarrow> Inl e
                 | Inr charset \<Rightarrow> bytes_decode L (body r2) charset))"
    unfolding retrieve_uri_contents_def c2 by (simp split: sum.splits)
  have c4: "scheme \<noteq> [] \<and> netloc \<noteq> [] \<and> target \<noteq> [] \<longrightarrow>
            ref_urlunparse scheme netloc target =
              scheme @ ''://'' @ netloc
              @ (if take 1 target = ''/'' then target else ''/'' @ target)"
    by (simp add: ref_urlunparse_netloc)
  have c5: "no_m_tag pre
            \<and> map lower_ascii tag = ''<meta http-equiv='' @ [dquote] @ ''refresh'' @ [dquote]
                                      @ '' content='' @ [dquote]
            \<and> delay \<noteq> [] \<and> CHR '';'' \<notin> set delay \<and> list_all re_space ws
            \<and> map lower_ascii url = ''url='' \<and> tgt \<noteq> [] \<and> dquote \<notin> set tgt \<longrightarrow>
            search_refresh (pre @ tag @ delay @ '';'' @ ws @ url @ tgt @ [dquote] @ rest)
              = Some tgt"
  proof (intro impI, elim conjE)
    assume "no_m_tag pre"
      "map lower_ascii tag = ''<meta http-equiv='' @ [dquote] @ ''refresh'' @ [dquote]
                                      @ '' content='' @ [dquote]"
      "delay \<noteq> []" "CHR '';'' \<notin> set delay" "list_all re_space ws"
      "map lower_ascii url = ''url=''" "tgt \<noteq> []" "dquote \<notin> set tgt"
    then show "search_refresh (pre @ tag @ delay @ '';'' @ ws @ url @ tgt @ [dquote] @ rest)
              = Some tgt"
      by (rule search_refresh_form)
  qed
  from c1 c2 c3 c4 c5 show ?thesis by (intro conjI)
qed

text \<open>The example of the specification: page A at \<^verbatim>\<open>http://host/a.html\<close> redirects with
  \<^verbatim>\<open>URL=/b.html\<close>; the fetcher requests \<^verbatim>\<open>http://host/b.html\<close> and returns the text of
  page B (here as code points), although page A came with a charset of its own. The
  body of page A has the form of the theorem, with the tag in capitals, the delay
  \<^verbatim>\<open>0\<close> and one space before \<^verbatim>\<open>URL=\<close>. On a network that has page A only, the second
  request is made all the same, and its \<^verbatim>\<open>URLError\<close> is the result.\<close>

theorem meta_refresh_redirect_witness:
  "fetch_contents host_lib ''http://host/a.html''
     = ([''http://host/a.html'', ''http://host/b.html''], Inr page_b)
   \<and> retrieve_uri_contents host_lib ''http://host/a.html''
     = Inr [60, 112, 62, 66, 60, 47, 112, 62]
   \<and> ref_urlunparse ''http'' ''host'' ''/b.html'' = ''http://host/b.html''
   \<and> search_refresh (body page_a) = Some ''/b.html''
   \<and> fst (fetch_contents dangling_lib ''http://host/a.html'')
     = [''http://host/a.html'', ''http://host/b.html'']
   \<and> retrieve_uri_contents dangling_lib ''http://host/a.html'' = Inl URLError"
proof -
  have h1: "urlopen host_lib ''http://host/a.html'' = Inr page_a" by code_simp
  have h2: "search_refresh (body page_a) = Some ''/b.html''" by code_simp
  have h3: "list_all (\<lambda>c. (of_char c :: int) < 128) ''/b.html''" by code_simp
  have h4: "urlparse host_lib ''http://host/a.html'' = (''http'', ''host'')" by code_simp
  have u: "urlunparse host_lib ''http'' ''host'' ''/b.html'' = ''http://host/b.html''"
    by code_simp
  have h5: "urlopen host_lib ''http://host/b.html'' = Inr page_b" by code_simp
  have d: "(case determine_charset (content_charset page_b) (body page_b) of
              Inl e \<Rightarrow> Inl e
            | Inr charset \<Rightarrow> bytes_decode host_lib (body page_b) charset)
           = Inr [60, 112, 62, 66, 60, 47, 112, 62]" by code_simp
  have n: "''http'' \<noteq> [] \<and> ''host'' \<noteq> [] \<and> ''/b.html'' \<noteq> []" by simp
  have s: "''http'' @ ''://'' @ ''host''
             @ (if take 1 ''/b.html'' = ''/'' then ''/b.html'' else ''/'' @ ''/b.html'')
           = ''http://host/b.html''" by simp
  have f1: "no_m_tag ''<html><head>''" by code_simp
  have f2: "map lower_ascii (''<META HTTP-EQUIV='' @ [dquote] @ ''Refresh'' @ [dquote]
                             @ '' CONTENT='' @ [dquote])
            = ''<meta http-equiv='' @ [dquote] @ ''refresh'' @ [dquote]
              @ '' content='' @ [dquote]" by code_simp
  have f3: "''0'' \<noteq> []" by simp
  have f4: "CHR '';'' \<notin> set ''0''" by simp
  have f5: "list_all re_space '' ''" by code_simp
  have f6: "map lower_ascii ''URL='' = ''url=''" by code_simp
  have f7: "''/b.html'' \<noteq> []" by simp
  have f8: "dquote \<notin> set ''/b.html''" by code_simp
  have b: "body page_a
           = ''<html><head>''
             @ (''<META HTTP-EQUIV='' @ [dquote] @ ''Refresh'' @ [dquote]
                @ '' CONTENT='' @ [dquote])
             @ ''0'' @ '';'' @ '' '' @ ''URL='' @ ''/b.html'' @ [dquote] @ ''></head></html>''"
    by code_simp
  note t = meta_refresh_redirect [OF h1 h2 h3 h4,
      where pre = "''<html><head>''"
        and tag = "''<META HTTP-EQUIV='' @ [dquote] @ ''Refresh'' @ [dquote]
                   @ '' CONTENT='' @ [dquote]"
        and delay = "''0''" and ws = "'' ''" and url = "''URL=''" and tgt = "''/b.html''"
        and rest = "''></head></html>''"]
  have c1: "fst (fetch_contents host_lib ''http://host/a.html'')
     = [''http://host/a.html'', ''http://host/b.html'']"
    using t [THEN conjunct1] unfolding u .
  have c2: "snd (fetch_contents host_lib ''http://host/a.html'') = Inr page_b"
    using t [THEN conjunct2, THEN conjunct1] unfolding u h5 by simp
  from c1 c2 have c12: "fetch_contents host_lib ''http://host/a.html''
     = ([''http://host/a.html'', ''http://host/b.html''], Inr page_b)"
    by (simp add: prod_eq_iff)
  have c3: "retrieve_uri_contents host_lib ''http://host/a.html''
     = Inr [60, 112, 62, 66, 60, 47, 112, 62]"
    using t [THEN conjunct2, THEN conjunct2, THEN conjunct1] unfolding u h5 using d by simp
  have c4: "ref_urlunparse ''http'' ''host'' ''/b.html'' = ''http://host/b.html''"
    using t [THEN conjunct2, THEN conjunct2, THEN conjunct2, THEN conjunct1, THEN mp, OF n]
    unfolding s .
  have c5: "search_refresh (body page_a) = Some ''/b.html''"
    unfolding b
    by (rule t [THEN conjunct2, THEN conjunct2, THEN conjunct2, THEN conjunct2, THEN mp])
       (intro conjI f1 f2 f3 f4 f5 f6 f7 f8)
  have k1: "urlopen dangling_lib ''http://host/a.html'' = Inr page_a" by code_simp
  have k4: "urlparse dangling_lib ''http://host/a.html'' = (''http'', ''host'')" by code_simp
  have ku: "urlunparse dangling_lib ''http'' ''host'' ''/b.html'' = ''http://host/b.html''"
    by code_simp
  have k5: "urlopen dangling_lib ''http://host/b.html'' = Inl URLError" by code_simp
  have kr: "reraise URLError = URLError" by code_simp
  note t' = meta_refresh_redirect [OF k1 h2 h3 k4]
  have c6: "fst (fetch_contents dangling_lib ''http://host/a.html'')
     = [''http://host/a.html'', ''http://host/b.html'']"
    using t' [THEN conjunct1] unfolding ku .
  have c7: "retrieve_uri_contents dangling_lib ''http://host/a.html'' = Inl URLError"
    using t' [THEN conjunct2, THEN conjunct2, THEN conjunct1] unfolding ku k5 by (simp add: kr)
  from c12 c3 c4 c5 c6 c7 show ?thesis by (intro conjI)
qed

text \<open>The claim as written fails in two ways. The target is not read as a URI with a
  path, a query and a fragment of its own: its whole text becomes the path. For the
  target \<^verbatim>\<open>http://other/b.html\<close>, whose own path is \<^verbatim>\<open>/b.html\<close>, the second request is
  for \<^verbatim>\<open>http://host/http://other/b.html\<close>, which the network does not have. And when the
  target has a byte outside ASCII, \<^verbatim>\<open>decode('ascii')\<close> raises and no second request is made,
  although the network has a page for the target.\<close>

theorem redirect_target_counterexample:
  "fetch_contents absolute_lib ''http://host/a.html''
     = ([''http://host/a.html'', ''http://host/http://other/b.html''], Inl URLError)
   \<and> search_refresh (body page_absolute) = Some ''http://other/b.html''
   \<and> ref_urlparse ''http://other/b.html'' = (''http'', ''other'')
   \<and> ''http://host/http://other/b.html'' \<noteq> ''http://host/b.html''
   \<and> fetch_contents accent_lib ''http://host/a.html''
     = ([''http://host/a.html''], Inl UnicodeDecodeError)
   \<and> search_refresh (body page_accent) = Some (''/b'' @ [CHR 0xFA] @ ''squeda.html'')
   \<and> urlopen accent_lib (''http://host/b'' @ [CHR 0xFA] @ ''squeda.html'') = Inr page_b
   \<and> retrieve_uri_contents accent_lib ''http://host/a.html'' = Inl UnicodeDecodeError"
  by code_simp

subsection \<open>The charset\<close>

text \<open>
  C2, as the code has it. The first pattern matches from offset \<open>i\<close> with its charset at
  offset \<open>k\<close> when \<^verbatim>\<open><meta http-equiv="content-type"\<close> stands at \<open>i\<close> in any case of the
  letters, no line feed lies between the end of it and \<open>k\<close>, and \<^verbatim>\<open>charset=\<close>, a name and a
  double quote stand at \<open>k\<close> (\<open>content_type_match\<close>); the second matches from \<open>i\<close> when
  \<^verbatim>\<open><meta charset="\<close>, a name and a double quote stand at \<open>i\<close> (\<open>meta_charset_match\<close>).

  With no charset from the headers, the charset is the name of the first pattern at its
  leftmost \<open>i\<close> and, for that \<open>i\<close>, its rightmost \<open>k\<close>, when the first pattern matches
  anywhere (\<open>b1\<close>); otherwise the name of the second pattern at its leftmost \<open>i\<close>, when the
  second pattern matches anywhere (\<open>b2\<close>); otherwise \<^verbatim>\<open>latin_1\<close> (\<open>b3\<close>). A body where a
  pattern matches has such a leftmost match (\<open>b4\<close>, \<open>b5\<close>), so the three cases cover every
  body. The name found is read as ASCII. The body of the final response is decoded with
  that charset.
\<close>

theorem charset_fallback_order:
  "(content_type_match b1 i1 k1 g1
      \<and> (\<forall>i' k' n'. content_type_match b1 i' k' n' \<longrightarrow> i1 < i' \<or> (i' = i1 \<and> k' \<le> k1)) \<longrightarrow>
        determine_charset None b1 = decode_ascii g1)
   \<and> ((\<forall>i k n. \<not> content_type_match b2 i k n)
      \<and> meta_charset_match b2 i2 g2
      \<and> (\<forall>i' n'. meta_charset_match b2 i' n' \<longrightarrow> i2 \<le> i') \<longrightarrow>
        determine_charset None b2 = decode_ascii g2)
   \<and> ((\<forall>i k n. \<not> content_type_match b3 i k n) \<and> (\<forall>i n. \<not> meta_charset_match b3 i n) \<longrightarrow>
        determine_charset None b3 = Inr ''latin_1'')
   \<and> (content_type_match b4 i4 k4 g4 \<longrightarrow>
        (\<exists>i k g. content_type_match b4 i k g
           \<and> (\<forall>i' k' n'. content_type_match b4 i' k' n' \<longrightarrow> i < i' \<or> (i' = i \<and> k' \<le> k))))
   \<and> (meta_charset_match b5 i5 g5 \<longrightarrow>
        (\<exists>i g. meta_charset_match b5 i g \<and> (\<forall>i' n'. meta_charset_match b5 i' n' \<longrightarrow> i \<le> i')))
   \<and> (snd (fetch_contents L uri) = Inr r \<and> content_charset r = None \<longrightarrow>
        retrieve_uri_contents L uri =
          (case determine_charset None (body r) of
             Inl e \<Rightarrow> Inl e
           | Inr charset \<Rightarrow> bytes_decode L (body r) charset))"
proof -
  have c1: "content_type_match b1 i1 k1 g1
      \<and> (\<forall>i' k' n'. content_type_match b1 i' k' n' \<longrightarrow> i1 < i' \<or> (i' = i1 \<and> k' \<le> k1)) \<longrightarrow>
        determine_charset None b1 = decode_ascii g1"
  proof
    assume "content_type_match b1 i1 k1 g1
      \<and> (\<forall>i' k' n'. content_type_match b1 i' k' n' \<longrightarrow> i1 < i' \<or> (i' = i1 \<and> k' \<le> k1))"
    then have "search_content_type b1 = Some g1" unfolding search_content_type_Some_iff by blast
    then show "determine_charset None b1 = decode_ascii g1"
      by (simp add: determine_charset_def)
  qed
  have c2: "(\<forall>i k n. \<not> content_type_match b2 i k n)
      \<and> meta_charset_match b2 i2 g2
      \<and> (\<forall>i' n'. meta_charset_match b2 i' n' \<longrightarrow> i2 \<le> i') \<longrightarrow>
        determine_charset None b2 = decode_ascii g2"
  proof
    assume a: "(\<forall>i k n. \<not> content_type_match b2 i k n)
      \<and> meta_charset_match b2 i2 g2
      \<and> (\<forall>i' n'. meta_charset_match b2 i' n' \<longrightarrow> i2 \<le> i')"
    then have "search_content_type b2 = None" unfolding search_content_type_None_iff by blast
    moreover from a have "search_meta_charset b2 = Some g2"
      unfolding search_meta_charset_Some_iff by blast
    ultimately show "determine_charset None b2 = decode_ascii g2"
      by (simp add: determine_charset_def)
  qed
  have c3: "(\<forall>i k n. \<not> content_type_match b3 i k n) \<and> (\<forall>i n. \<not> meta_charset_match b3 i n) \<longrightarrow>
        determine_charset None b3 = Inr ''latin_1''"
  proof
    assume a: "(\<forall>i k n. \<not> content_type_match b3 i k n) \<and> (\<forall>i n. \<not> meta_charset_match b3 i n)"
    then have "search_content_type b3 = None" unfolding search_content_type_None_iff by blast
    moreover from a have "search_meta_charset b3 = None"
      unfolding search_meta_charset_None_iff by blast
    ultimately show "determine_charset None b3 = Inr ''latin_1''"
      by (simp add: determine_charset_def)
  qed
  have c4: "content_type_match b4 i4 k4 g4 \<longrightarrow>
        (\<exists>i k g. content_type_match b4 i k g
           \<and> (\<forall>i' k' n'. content_type_match b4 i' k' n' \<longrightarrow> i < i' \<or> (i' = i \<and> k' \<le> k)))"
  proof
    assume a: "content_type_match b4 i4 k4 g4"
    have "search_content_type b4 \<noteq> None"
    proof
      assume "search_content_type b4 = None"
      with a show False unfolding search_content_type_None_iff by blast
    qed
    then obtain g where "search_content_type b4 = Some g" by blast
    then show "\<exists>i k g. content_type_match b4 i k g
           \<and> (\<forall>i' k' n'. content_type_match b4 i' k' n' \<longrightarrow> i < i' \<or> (i' = i \<and> k' \<le> k))"
      unfolding search_content_type_Some_iff by blast
  qed
  have c5: "meta_charset_match b5 i5 g5 \<longrightarrow>
        (\<exists>i g. meta_charset_match b5 i g \<and> (\<forall>i' n'. meta_charset_match b5 i' n' \<longrightarrow> i \<le> i'))"
  proof
    assume a: "meta_charset_match b5 i5 g5"
    have "search_meta_charset b5 \<noteq> None"
    proof
      assume "search_meta_charset b5 = None"
      with a show False unfolding search_meta_charset_None_iff by blast
    qed
    then obtain g where "search_meta_charset b5 = Some g" by blast
    then show "\<exists>i g. meta_charset_match b5 i g
        \<and> (\<forall>i' n'. meta_charset_match b5 i' n' \<longrightarrow> i \<le> i')"
      unfolding search_meta_charset_Some_iff by blast
  qed
  have c6: "snd (fetch_contents L uri) = Inr r \<and> content_charset r = None \<longrightarrow>
        retrieve_uri_contents L uri =
          (case determine_charset None (body r) of
             Inl e \<Rightarrow> Inl e
           | Inr charset \<Rightarrow> bytes_decode L (body r) charset)"
    by (simp add: retrieve_uri_contents_def)
  from c1 c2 c3 c4 c5 c6 show ?thesis by (intro conjI)
qed

text \<open>The theorem at a body with both declarations (the first one wins; its match is at
  offset 0 with the charset at offset 52), at a body with \<^verbatim>\<open><meta charset="utf-8">\<close> only,
  whose two bytes C3 A9 decode to the one code point 233, and at a body with no
  declaration, whose byte E9 decodes to 233 as Latin-1 does.\<close>

theorem charset_fallback_order_witness:
  "determine_charset None (body page_http_equiv) = Inr ''ascii''
   \<and> content_type_match (body page_http_equiv) 0 52 ''ascii''
   \<and> determine_charset None (body page_utf8) = Inr ''utf-8''
   \<and> meta_charset_match (body page_utf8) 0 ''utf-8''
   \<and> determine_charset None (body page_plain) = Inr ''latin_1''
   \<and> retrieve_uri_contents charset_lib ''http://host/u''
        = Inr [60, 109, 101, 116, 97, 32, 99, 104, 97, 114, 115, 101, 116, 61, 34, 117, 116,
               102, 45, 56, 34, 62, 60, 112, 62, 233, 60, 47, 112, 62]
   \<and> retrieve_uri_contents charset_lib ''http://host/p''
        = Inr [60, 112, 62, 233, 60, 47, 112, 62]"
proof -
  have a1: "search_content_type (body page_http_equiv) = Some ''ascii''" by code_simp
  have a2: "search_content_type (body page_utf8) = None" by code_simp
  have a2': "search_meta_charset (body page_utf8) = Some ''utf-8''" by code_simp
  have a3: "search_content_type (body page_plain) = None" by code_simp
  have a3': "search_meta_charset (body page_plain) = None" by code_simp
  have a4: "snd (fetch_contents charset_lib ''http://host/u'') = Inr page_utf8
            \<and> content_charset page_utf8 = None"
    by code_simp
  have a5: "snd (fetch_contents charset_lib ''http://host/p'') = Inr page_plain
            \<and> content_charset page_plain = None"
    by code_simp
  have m1: "content_type_match (body page_http_equiv) 0 52 ''ascii''" by code_simp
  have m2: "meta_charset_match (body page_utf8) 0 ''utf-8''" by code_simp
  have d1: "decode_ascii ''ascii'' = Inr ''ascii''" "decode_ascii ''utf-8'' = Inr ''utf-8''"
    by code_simp+
  have e1: "bytes_decode charset_lib (body page_utf8) ''utf-8''
        = Inr [60, 109, 101, 116, 97, 32, 99, 104, 97, 114, 115, 101, 116, 61, 34, 117, 116,
               102, 45, 56, 34, 62, 60, 112, 62, 233, 60, 47, 112, 62]" by code_simp
  have e2: "bytes_decode charset_lib (body page_plain) ''latin_1''
        = Inr [60, 112, 62, 233, 60, 47, 112, 62]"
    by code_simp
  note t = charset_fallback_order [where L = charset_lib and uri = "''http://host/u''"
       and r = page_utf8
       and ?b4.0 = "body page_http_equiv" and ?i4.0 = 0 and ?k4.0 = 52 and ?g4.0 = "''ascii''"
       and ?b5.0 = "body page_utf8" and ?i5.0 = 0 and ?g5.0 = "''utf-8''"]
  note t' = charset_fallback_order [where L = charset_lib and uri = "''http://host/p''"
       and r = page_plain]
  note k1 = t [THEN conjunct1]
  note k2 = t [THEN conjunct2, THEN conjunct1]
  note k3 = t [THEN conjunct2, THEN conjunct2, THEN conjunct1]
  note k4 = t [THEN conjunct2, THEN conjunct2, THEN conjunct2, THEN conjunct1]
  note k5 = t [THEN conjunct2, THEN conjunct2, THEN conjunct2, THEN conjunct2, THEN conjunct1]
  note k6 = t [THEN conjunct2, THEN conjunct2, THEN conjunct2, THEN conjunct2, THEN conjunct2]
  note k6' = t' [THEN conjunct2, THEN conjunct2, THEN conjunct2, THEN conjunct2, THEN conjunct2]
  from k4 [THEN mp, OF m1] obtain i k g where
    h1: "content_type_match (body page_http_equiv) i k g
         \<and> (\<forall>i' k' n'. content_type_match (body page_http_equiv) i' k' n' \<longrightarrow>
               i < i' \<or> (i' = i \<and> k' \<le> k))"
    by blast
  then have "search_content_type (body page_http_equiv) = Some g"
    unfolding search_content_type_Some_iff by blast
  with a1 have g: "g = ''ascii''" by simp
  have r1: "determine_charset None (body page_http_equiv) = Inr ''ascii''"
    using k1 [THEN mp, OF h1] unfolding g d1 .
  from a2 have n2: "\<forall>i k n. \<not> content_type_match (body page_utf8) i k n"
    unfolding search_content_type_None_iff .
  from k5 [THEN mp, OF m2] obtain j g' where
    h2: "meta_charset_match (body page_utf8) j g'
         \<and> (\<forall>i' n'. meta_charset_match (body page_utf8) i' n' \<longrightarrow> j \<le> i')"
    by blast
  then have "search_meta_charset (body page_utf8) = Some g'"
    unfolding search_meta_charset_Some_iff by blast
  with a2' have g': "g' = ''utf-8''" by simp
  have r2: "determine_charset None (body page_utf8) = Inr ''utf-8''"
    using k2 [THEN mp, OF conjI [OF n2 h2]] unfolding g' d1 .
  from a3 have n3: "\<forall>i k n. \<not> content_type_match (body page_plain) i k n"
    unfolding search_content_type_None_iff .
  from a3' have n3': "\<forall>i n. \<not> meta_charset_match (body page_plain) i n"
    unfolding search_meta_charset_None_iff .
  have r3: "determine_charset None (body page_plain) = Inr ''latin_1''"
    using k3 [THEN mp, OF conjI [OF n3 n3']] .
  have r4: "retrieve_uri_contents charset_lib ''http://host/u''
        = Inr [60, 109, 101, 116, 97, 32, 99, 104, 97, 114, 115, 101, 116, 61, 34, 117, 116,
               102, 45, 56, 34, 62, 60, 112, 62, 233, 60, 47, 112, 62]"
    using k6 [THEN mp, OF a4] by (simp only: r2 sum.case e1)
  have r5: "retrieve_uri_contents charset_lib ''http://host/p''
        = Inr [60, 112, 62, 233, 60, 47, 112, 62]"
    using k6' [THEN mp, OF a5] by (simp only: r3 sum.case e2)
  from r1 m1 r2 m2 r3 r4 r5 show ?thesis by (intro conjI)
qed

text \<open>The claim as written fails on declarations that the patterns do not see, or see
  otherwise. A \<^verbatim>\<open>content-type\<close> declaration with a line feed after the first attribute is
  not found: the page, in UTF-8 as it declares, is decoded as Latin-1, and its two bytes
  C3 A9 become the two code points 195 and 169. On one line, a \<^verbatim>\<open>content-type\<close> tag
  with no charset, then \<^verbatim>\<open><meta charset="utf-8">\<close>, then a link with \<^verbatim>\<open>?charset=x"\<close>: the
  first pattern runs on to the link and gives \<^verbatim>\<open>x\<close>, which no codec has. A declaration
  with \<^verbatim>\<open>content\<close> before \<^verbatim>\<open>http-equiv\<close> is not found.\<close>

theorem charset_declaration_counterexample:
  "determine_charset None (body page_split_tag) = Inr ''latin_1''
   \<and> retrieve_uri_contents misread_lib ''http://host/s''
       = Inr (map of_char (''<meta http-equiv='' @ [dquote] @ ''content-type'' @ [dquote]
                @ [CHR 0x0A] @ '' content='' @ [dquote] @ ''text/html; charset=utf-8''
                @ [dquote] @ ''><p>'') @ [195, 169] @ map of_char ''</p>'')
   \<and> determine_charset None (body page_later_charset) = Inr ''x''
   \<and> retrieve_uri_contents misread_lib ''http://host/l'' = Inl LookupError
   \<and> determine_charset None (body page_swapped) = Inr ''latin_1''"
  by code_simp

subsection \<open>Bodies that cannot be decoded\<close>

lemma bytes_decode_errors:
  "bytes_decode L contents charset = Inl e \<Longrightarrow> e = LookupError \<or> e = UnicodeDecodeError"
  by (auto simp: bytes_decode_def split: option.splits)

lemma uncaught_exception_leaves_loop:
  "retrieve_uri_contents L uri = Inl e \<Longrightarrow> e \<noteq> ConnectionError \<Longrightarrow> e \<noteq> URLError \<Longrightarrow>
   main_loop L st ((row, uri) # recs) = Inl e"
  by (cases e) (simp_all add: process_row_def try_row_def)

text \<open>
  C3 on the code. A decode failure leaves \<^verbatim>\<open>retrieve_uri_contents\<close> as
  \<^verbatim>\<open>UnicodeDecodeError\<close> (bytes that the charset cannot decode) or \<^verbatim>\<open>LookupError\<close> (a
  charset name with no codec). The loop of \<^verbatim>\<open>main\<close> catches \<^verbatim>\<open>ConnectionError\<close> and
  \<^verbatim>\<open>URLError\<close> only, so the exception leaves the loop: no failure entry is recorded and
  the rows that follow are not processed.
\<close>

theorem decode_failure_aborts_run:
  "retrieve_uri_contents decode_lib ''http://host/1'' = Inl UnicodeDecodeError
   \<and> retrieve_uri_contents decode_lib ''http://host/2'' = Inl LookupError
   \<and> main_loop decode_lib (main_init (Text []))
        [(1, ''http://host/1''), (2, ''http://host/3'')] = Inl UnicodeDecodeError
   \<and> main_loop decode_lib (main_init (Text []))
        [(1, ''http://host/2''), (2, ''http://host/3'')] = Inl LookupError"
  by code_simp

section \<open>The spreadsheet sink\<close>

subsection \<open>Cells and columns\<close>









subsection \<open>The column mapping\<close>









subsection \<open>One item\<close>






subsection \<open>One call, and a sequence of calls\<close>










subsection \<open>When a call returns, and what it raises\<close>

















subsection \<open>Column assignment\<close>



section \<open>The loop over the records\<close>

lemma add_metadata_empty_Excel: "add_metadata (Excel s) row uri [] = Inr (Excel s)"
  by (simp add: SkimmedExcel_add_metadata_def)

lemma add_metadata_empty_Text:
  "add_metadata (Text f) row uri [] =
     Inr (Text (f @ [''['' @ str_of_nat row @ ''] '' @ uri @ [CHR 0x0A]]))"
  by (simp add: SkimmedText_add_metadata_def)

lemma add_metadata_empty_total: "\<exists>sk'. add_metadata sk row uri [] = Inr sk'"
  by (cases sk) (simp_all add: SkimmedExcel_add_metadata_def)

lemma process_row_connection_error:
  "retrieve_uri_contents L uri = Inl ConnectionError \<Longrightarrow>
   process_row L st (row, uri) =
     Inr (st\<lparr>bad_uris := bad_uris st @ [(uri, ''No se pudo conectar'')]\<rparr>)"
  by (simp add: process_row_def try_row_def)

lemma process_row_url_error:
  "retrieve_uri_contents L uri = Inl URLError \<Longrightarrow>
   process_row L st (row, uri) =
     Inr (st\<lparr>bad_uris := bad_uris st @ [(uri, ''No se pudo acceder'')]\<rparr>)"
  by (simp add: process_row_def try_row_def)

lemma process_row_no_metadata:
  assumes "retrieve_uri_contents L uri = Inr contents"
    and "parse (html_tokens L) (the_parser st) contents = Inr (p', [])"
    and "add_metadata (skimmedfile st) row uri [] = Inr sk'"
  shows "process_row L st (row, uri) =
     Inr (st\<lparr>the_parser := p', skimmedfile := sk',
            bad_uris := bad_uris st @ [(uri, ''No se obtuvieron metadatos'')],
            sink_calls := sink_calls st @ [(row, uri, [])]\<rparr>)"
  using assms by (simp add: process_row_def try_row_def)

text \<open>
  C9, as the code has it. When the fetch raises \<^verbatim>\<open>ConnectionError\<close>, the loop goes on
  with the next record from the same state but for one more entry in \<^verbatim>\<open>bad_uris\<close>, with
  the reason \<^verbatim>\<open>No se pudo conectar\<close>: the sink is as it was and was not called. The same
  holds when the fetch raises \<^verbatim>\<open>URLError\<close>, with the reason \<^verbatim>\<open>No se pudo acceder\<close>. When
  the fetch succeeds and the extraction gives the empty mapping, the sink is called with
  that row, that URI and the empty mapping, one entry with the reason
  \<^verbatim>\<open>No se obtuvieron metadatos\<close> is added, and the loop goes on. The spreadsheet sink is
  unchanged by a call with the empty mapping (no column, no cell); the text sink gets the
  line of the row.
\<close>

theorem failures_recorded_per_row:
  "(retrieve_uri_contents L uri1 = Inl ConnectionError \<longrightarrow>
      main_loop L st ((row, uri1) # recs) =
        main_loop L (st\<lparr>bad_uris := bad_uris st @ [(uri1, ''No se pudo conectar'')]\<rparr>) recs)
   \<and> (retrieve_uri_contents L uri2 = Inl URLError \<longrightarrow>
        main_loop L st ((row, uri2) # recs) =
          main_loop L (st\<lparr>bad_uris := bad_uris st @ [(uri2, ''No se pudo acceder'')]\<rparr>) recs)
   \<and> (retrieve_uri_contents L uri3 = Inr contents
        \<and> parse (html_tokens L) (the_parser st) contents = Inr (p', []) \<longrightarrow>
        (\<exists>sk'. add_metadata (skimmedfile st) row uri3 [] = Inr sk'
           \<and> main_loop L st ((row, uri3) # recs) =
               main_loop L
                 (st\<lparr>the_parser := p', skimmedfile := sk',
                     bad_uris := bad_uris st @ [(uri3, ''No se obtuvieron metadatos'')],
                     sink_calls := sink_calls st @ [(row, uri3, [])]\<rparr>) recs))
   \<and> add_metadata (Excel s) row uri [] = Inr (Excel s)
   \<and> add_metadata (Text f) row uri [] =
       Inr (Text (f @ [''['' @ str_of_nat row @ ''] '' @ uri @ [CHR 0x0A]]))"
proof -
  have c: "retrieve_uri_contents L uri3 = Inr contents
        \<and> parse (html_tokens L) (the_parser st) contents = Inr (p', []) \<longrightarrow>
        (\<exists>sk'. add_metadata (skimmedfile st) row uri3 [] = Inr sk'
           \<and> main_loop L st ((row, uri3) # recs) =
               main_loop L
                 (st\<lparr>the_parser := p', skimmedfile := sk',
                     bad_uris := bad_uris st @ [(uri3, ''No se obtuvieron metadatos'')],
                     sink_calls := sink_calls st @ [(row, uri3, [])]\<rparr>) recs)"
  proof
    assume h: "retrieve_uri_contents L uri3 = Inr contents
        \<and> parse (html_tokens L) (the_parser st) contents = Inr (p', [])"
    from add_metadata_empty_total [of "skimmedfile st" row uri3] obtain sk'
      where sk: "add_metadata (skimmedfile st) row uri3 [] = Inr sk'" by blast
    from h have h1: "retrieve_uri_contents L uri3 = Inr contents"
      and h2: "parse (html_tokens L) (the_parser st) contents = Inr (p', [])" by simp_all
    from process_row_no_metadata [OF h1 h2 sk] sk
    show "\<exists>sk'. add_metadata (skimmedfile st) row uri3 [] = Inr sk'
           \<and> main_loop L st ((row, uri3) # recs) =
               main_loop L
                 (st\<lparr>the_parser := p', skimmedfile := sk',
                     bad_uris := bad_uris st @ [(uri3, ''No se obtuvieron metadatos'')],
                     sink_calls := sink_calls st @ [(row, uri3, [])]\<rparr>) recs"
      by auto
  qed
  show ?thesis
    using c add_metadata_empty_Excel [of s row uri] add_metadata_empty_Text [of f row uri]
    by (simp add: process_row_connection_error process_row_url_error)
qed

text \<open>The theorem on a run of three records: a refused connection, an unknown URI, and a
  page with no metadata; the last record is the only one that reaches the sink.\<close>

theorem failures_recorded_per_row_witness:
  "main_loop flaky_lib (main_init (Excel (SkimmedExcel [((1, 1), ''URI'')])))
     [(2, ''http://down/1''), (3, ''http://gone/2''), (4, ''http://up/3'')]
   = Inr \<lparr>the_parser = LibraryCatalogueHTMLParser ''auth'' ''titn'',
          skimmedfile = Excel \<lparr>sheet = [((1, 1), ''URI'')], metadata_columns = []\<rparr>,
          bad_uris = [(''http://down/1'', ''No se pudo conectar''),
                      (''http://gone/2'', ''No se pudo acceder''),
                      (''http://up/3'', ''No se obtuvieron metadatos'')],
          sink_calls = [(4, ''http://up/3'', [])]\<rparr>"
proof -
  let ?st0 = "main_init (Excel (SkimmedExcel [((1, 1), ''URI'')]))"
  let ?st1 = "?st0\<lparr>bad_uris := bad_uris ?st0 @ [(''http://down/1'', ''No se pudo conectar'')]\<rparr>"
  let ?st2 = "?st1\<lparr>bad_uris := bad_uris ?st1 @ [(''http://gone/2'', ''No se pudo acceder'')]\<rparr>"
  let ?p = "LibraryCatalogueHTMLParser ''auth'' ''titn''"
  have h1: "retrieve_uri_contents flaky_lib ''http://down/1'' = Inl ConnectionError"
    by code_simp
  have h2: "retrieve_uri_contents flaky_lib ''http://gone/2'' = Inl URLError"
    by code_simp
  have h3: "retrieve_uri_contents flaky_lib ''http://up/3'' = Inr [60, 112, 62, 66, 60, 47, 112, 62]"
    by code_simp
  have h4: "parse (html_tokens flaky_lib) (the_parser ?st2) [60, 112, 62, 66, 60, 47, 112, 62]
              = Inr (?p, [])"
    by code_simp
  note t = failures_recorded_per_row [where L = flaky_lib and ?uri1.0 = "''http://down/1''"
      and ?uri2.0 = "''http://gone/2''" and ?uri3.0 = "''http://up/3''"
      and contents = "[60, 112, 62, 66, 60, 47, 112, 62]" and p' = ?p]
  from t [where st = ?st0 and row = 2
      and recs = "[(3, ''http://gone/2''), (4, ''http://up/3'')]"] h1
  have s1: "main_loop flaky_lib ?st0
        [(2, ''http://down/1''), (3, ''http://gone/2''), (4, ''http://up/3'')]
      = main_loop flaky_lib ?st1 [(3, ''http://gone/2''), (4, ''http://up/3'')]"
    by blast
  from t [where st = ?st1 and row = 3 and recs = "[(4, ''http://up/3'')]"] h2
  have s2: "main_loop flaky_lib ?st1 [(3, ''http://gone/2''), (4, ''http://up/3'')]
      = main_loop flaky_lib ?st2 [(4, ''http://up/3'')]"
    by blast
  from t [where st = ?st2 and row = 4 and recs = "[]"] h3 h4
  obtain sk' where k: "add_metadata (skimmedfile ?st2) 4 ''http://up/3'' [] = Inr sk'"
    and s3: "main_loop flaky_lib ?st2 [(4, ''http://up/3'')]
      = main_loop flaky_lib
          (?st2\<lparr>the_parser := ?p, skimmedfile := sk',
               bad_uris := bad_uris ?st2 @ [(''http://up/3'', ''No se obtuvieron metadatos'')],
               sink_calls := sink_calls ?st2 @ [(4, ''http://up/3'', [])]\<rparr>) []"
    by blast
  have k': "add_metadata (skimmedfile ?st2) 4 ''http://up/3'' []
      = Inr (Excel \<lparr>sheet = [((1, 1), ''URI'')], metadata_columns = []\<rparr>)"
    by code_simp
  from k k' have sk: "sk' = Excel \<lparr>sheet = [((1, 1), ''URI'')], metadata_columns = []\<rparr>"
    by simp
  show ?thesis
    unfolding s1 s2 s3 sk
    by (simp add: main_init_def CONFIG_K_DIV_CLASS_def CONFIG_V_DIV_CLASS_def)
qed

text \<open>The claim as written fails on the reasons: the run records the Spanish sentences
  of the program, which are not the strings of the claim. And a transport failure of
  another class than the two that are caught leaves the loop with no entry at all.\<close>

theorem reason_strings_counterexample:
  "main_loop flaky_lib (main_init (Text []))
     [(1, ''http://down/1''), (2, ''http://gone/2''), (3, ''http://up/3'')]
   = Inr \<lparr>the_parser = LibraryCatalogueHTMLParser ''auth'' ''titn'',
          skimmedfile = Text [''[3] http://up/3'' @ [CHR 0x0A]],
          bad_uris = [(''http://down/1'', ''No se pudo conectar''),
                      (''http://gone/2'', ''No se pudo acceder''),
                      (''http://up/3'', ''No se obtuvieron metadatos'')],
          sink_calls = [(3, ''http://up/3'', [])]\<rparr>
   \<and> ''No se pudo conectar'' \<noteq> ''could not connect''
   \<and> ''No se pudo acceder'' \<noteq> ''could not reach''
   \<and> ''No se obtuvieron metadatos'' \<noteq> ''no metadata obtained''
   \<and> main_loop broken_lib (main_init (Text [])) [(1, ''http://host/1''), (2, ''http://host/2'')]
       = Inl (OtherException ''IncompleteRead'')"
  by code_simp

section \<open>The sources\<close>

lemma first_manteca_sound:
  "(r', v) \<in> set (first_manteca L r cs) \<Longrightarrow>
   r' = r \<and> StringCell v \<in> set cs \<and> prefix ''http'' (fst (urlparse L v))"
proof (induction cs)
  case Nil
  then show ?case by simp
next
  case (Cons c cs)
  then show ?case by (cases c) (auto split: if_splits)
qed

lemma excel_mantecas_sound:
  assumes "(r, v) \<in> set (MantecaExcel_get_mantecas L rows)"
  shows "prefix ''http'' (fst (urlparse L v)) \<and> 1 \<le> r \<and> r \<le> length rows
       \<and> StringCell v \<in> set (fst (rows ! (r - 1)) # snd (rows ! (r - 1)))"
proof -
  from assms obtain i row where ir: "(i, row) \<in> set (enumerate 1 rows)"
    and m: "(r, v) \<in> set (first_manteca L i (fst row # snd row))"
    unfolding MantecaExcel_get_mantecas_def by auto
  from first_manteca_sound [OF m] have ri: "r = i"
    and c: "StringCell v \<in> set (fst row # snd row)"
    and h: "prefix ''http'' (fst (urlparse L v))"
    by simp_all
  from ir have "1 \<le> i" "i < length rows + 1" "rows ! (i - 1) = row"
    by (simp_all add: in_set_enumerate_eq)
  with ri c h show ?thesis by auto
qed

lemma text_mantecas_iff:
  "(r, u) \<in> set (MantecaText_get_mantecas lines) \<longleftrightarrow>
     1 \<le> r \<and> r \<le> length lines \<and> u = strip (lines ! (r - 1)) \<and> u \<noteq> []"
  unfolding MantecaText_get_mantecas_def
  by (auto simp: in_set_enumerate_eq split: if_splits)

text \<open>
  C10, as the code has it. Every record that the spreadsheet source yields is a string
  cell of the row with that number whose scheme, as \<^verbatim>\<open>urlparse\<close> finds it, starts with
  \<^verbatim>\<open>http\<close>. The text source makes no test of the scheme: it yields exactly the lines that
  are not blank, each with its line number and without the surrounding whitespace.
\<close>

theorem sources_scheme_filter:
  "((r, v) \<in> set (MantecaExcel_get_mantecas L rows) \<longrightarrow>
      prefix ''http'' (fst (urlparse L v)) \<and> 1 \<le> r \<and> r \<le> length rows
      \<and> StringCell v \<in> set (fst (rows ! (r - 1)) # snd (rows ! (r - 1))))
   \<and> ((n, u) \<in> set (MantecaText_get_mantecas lines) \<longleftrightarrow>
        1 \<le> n \<and> n \<le> length lines \<and> u = strip (lines ! (n - 1)) \<and> u \<noteq> [])"
  using excel_mantecas_sound [of r v L rows] text_mantecas_iff [of n u lines] by blast

text \<open>The theorem on a sheet whose second row has two URIs (the first one is yielded)
  and whose third row has an \<^verbatim>\<open>ftp\<close> URI only (nothing is yielded), and on a text file with
  a blank line and an \<^verbatim>\<open>ftp\<close> URI (which is yielded).\<close>

theorem sources_scheme_filter_witness:
  "MantecaExcel_get_mantecas host_lib example_rows = [(2, ''https://cat/1'')]
   \<and> prefix ''http'' (fst (urlparse host_lib ''https://cat/1''))
   \<and> MantecaText_get_mantecas example_lines = [(1, ''http://cat/1''), (3, ''ftp://cat/2'')]
   \<and> ''ftp://cat/2'' = strip (example_lines ! (3 - 1))"
proof -
  have e: "MantecaExcel_get_mantecas host_lib example_rows = [(2, ''https://cat/1'')]"
    by code_simp
  have t: "MantecaText_get_mantecas example_lines = [(1, ''http://cat/1''), (3, ''ftp://cat/2'')]"
    by code_simp
  have m: "(2, ''https://cat/1'') \<in> set (MantecaExcel_get_mantecas host_lib example_rows)"
    unfolding e by simp
  have n: "(3, ''ftp://cat/2'') \<in> set (MantecaText_get_mantecas example_lines)"
    unfolding t by simp
  from sources_scheme_filter [of 2 "''https://cat/1''" host_lib example_rows 3 "''ftp://cat/2''"
      example_lines] m n e t
  show ?thesis by simp
qed

text \<open>The claim as written fails for the text source: a line with no scheme and a line
  with a scheme that does not start with \<^verbatim>\<open>http\<close> are both yielded.\<close>

theorem text_source_counterexample:
  "MantecaText_get_mantecas [''foo'' @ [CHR 0x0A], ''mailto:a@b'' @ [CHR 0x0A]]
     = [(1, ''foo''), (2, ''mailto:a@b'')]
   \<and> fst (ref_urlparse ''foo'') = []
   \<and> fst (ref_urlparse ''mailto:a@b'') = ''mailto''
   \<and> \<not> prefix ''http'' (fst (ref_urlparse ''foo''))
   \<and> \<not> prefix ''http'' (fst (ref_urlparse ''mailto:a@b''))"
  by code_simp

section \<open>Further properties\<close>

text \<open>
  X1. The scenario of the specification, run through the loop: the record
  \<^verbatim>\<open>(3, "http://example.org/item/42")\<close>, whose page has the key region \<^verbatim>\<open>Autor:\<close> and the
  value region \<^verbatim>\<open>Cervantes\<close>, gives the metadata \<^verbatim>\<open>{"Autor": "Cervantes"}\<close>; the sink is
  called once, for row 3 and that URI, makes the column \<^verbatim>\<open>[sm] Autor\<close> after the last
  column of the sheet and writes the value in row 3 of it; no failure is recorded.
\<close>

theorem item_scenario:
  "main_loop item_lib
     (main_init (Excel (SkimmedExcel [((1, 1), ''URI''), ((3, 1), item_uri)])))
     [(3, item_uri)]
   = Inr \<lparr>the_parser =
            \<lparr>within_k_tag = False, within_v_tag = False, k_class = ''auth'',
             v_class = ''titn'', current_key = [], current_value = [],
             retrieved_metadata = [(''Autor'', ''Cervantes'')]\<rparr>,
          skimmedfile =
            Excel \<lparr>sheet = [((1, 1), ''URI''), ((3, 1), ''http://example.org/item/42''),
                            ((1, 2), ''[sm] Autor''), ((3, 2), ''Cervantes'')],
                   metadata_columns = [(''[sm] Autor'', 2)]\<rparr>,
          bad_uris = [],
          sink_calls = [(3, ''http://example.org/item/42'', [(''Autor'', ''Cervantes'')])]\<rparr>"
  by code_simp

text \<open>
  X2. A URI of a type that \<^verbatim>\<open>urlopen\<close> does not know (it raises \<^verbatim>\<open>ValueError\<close> with a
  message that starts with \<^verbatim>\<open>unknown url type:\<close>) makes the fetch raise \<^verbatim>\<open>URLError\<close>, so
  the loop records the row with the reason \<^verbatim>\<open>No se pudo acceder\<close> and goes on.
\<close>

theorem unknown_url_type_is_recorded:
  "urlopen L uri = Inl (ValueError m) \<Longrightarrow> prefix ''unknown url type:'' m \<Longrightarrow>
   retrieve_uri_contents L uri = Inl URLError
   \<and> main_loop L st ((row, uri) # recs) =
       main_loop L (st\<lparr>bad_uris := bad_uris st @ [(uri, ''No se pudo acceder'')]\<rparr>) recs"
  by (simp add: retrieve_uri_contents_def fetch_contents_def reraise_def process_row_def
      try_row_def)

text \<open>The theorem on the line \<^verbatim>\<open>foo\<close> of a text file.\<close>

theorem unknown_url_type_is_recorded_witness:
  "main_loop unknown_type_lib (main_init (Text [])) [(1, ''foo'')]
   = Inr \<lparr>the_parser = LibraryCatalogueHTMLParser ''auth'' ''titn'', skimmedfile = Text [],
          bad_uris = [(''foo'', ''No se pudo acceder'')], sink_calls = []\<rparr>"
proof -
  have h1: "urlopen unknown_type_lib ''foo'' = Inl (ValueError ''unknown url type: foo'')"
    by code_simp
  have h2: "prefix ''unknown url type:'' ''unknown url type: foo''" by code_simp
  from unknown_url_type_is_recorded [OF h1 h2, of "main_init (Text [])" 1 "[]"]
  show ?thesis
    by (simp add: main_init_def CONFIG_K_DIV_CLASS_def CONFIG_V_DIV_CLASS_def)
qed

lemma first_manteca_rows: "\<forall>x \<in> set (first_manteca L r cs). fst x = r"
proof (induction cs)
  case Nil
  then show ?case by simp
next
  case (Cons c cs)
  then show ?case by (cases c) auto
qed

lemma first_manteca_at_most_one: "length (first_manteca L r cs) \<le> 1"
proof (induction cs)
  case Nil
  then show ?case by simp
next
  case (Cons c cs)
  then show ?case by (cases c) auto
qed

lemma first_manteca_sorted: "sorted_wrt (<) (map fst (first_manteca L r cs))"
proof -
  from first_manteca_at_most_one [of L r cs]
  have "length (map fst (first_manteca L r cs)) \<le> 1" by simp
  then show ?thesis by (cases "map fst (first_manteca L r cs)") (auto simp: Suc_le_eq)
qed

lemma excel_rows_from:
  "sorted_wrt (<) (map fst (concat (map (\<lambda>(r, row). first_manteca L r (fst row # snd row))
                                       (enumerate n rows))))
   \<and> (\<forall>x \<in> set (concat (map (\<lambda>(r, row). first_manteca L r (fst row # snd row))
                                 (enumerate n rows))). n \<le> fst x)"
proof (induction rows arbitrary: n)
  case Nil
  then show ?case by simp
next
  case (Cons row rows)
  let ?f = "\<lambda>(r, row). first_manteca L r (fst row # snd row)"
  from Cons.IH [of "Suc n"]
  have s: "sorted_wrt (<) (map fst (concat (map ?f (enumerate (Suc n) rows))))"
    and b: "\<forall>x \<in> set (concat (map ?f (enumerate (Suc n) rows))). Suc n \<le> fst x"
    by simp_all
  have h: "\<forall>x \<in> set (first_manteca L n (fst row # snd row)). fst x = n"
    by (rule first_manteca_rows)
  have "sorted_wrt (<) (map fst (first_manteca L n (fst row # snd row)
           @ concat (map ?f (enumerate (Suc n) rows))))"
    unfolding map_append sorted_wrt_append
    using s b h first_manteca_sorted [of L n "fst row # snd row"] by fastforce
  moreover have "\<forall>x \<in> set (first_manteca L n (fst row # snd row)
           @ concat (map ?f (enumerate (Suc n) rows))). n \<le> fst x"
    using b h by fastforce
  ultimately show ?case by simp
qed

lemma excel_length_from:
  "length (concat (map (\<lambda>(r, row). first_manteca L r (fst row # snd row)) (enumerate n rows)))
     \<le> length rows"
proof (induction rows arbitrary: n)
  case Nil
  then show ?case by simp
next
  case (Cons row rows)
  from Cons.IH [of "Suc n"] first_manteca_at_most_one [of L n "fst row # snd row"]
  show ?case by simp
qed

text \<open>
  X3. The spreadsheet source yields at most one record for a row, and the records come
  in the order of the rows: the row numbers of the records are strictly increasing.
\<close>

theorem one_manteca_per_row:
  "sorted_wrt (<) (map fst (MantecaExcel_get_mantecas L rows))
   \<and> length (MantecaExcel_get_mantecas L rows) \<le> length rows"
  using excel_rows_from [of L 1 rows] excel_length_from [of L 1 rows]
  by (simp add: MantecaExcel_get_mantecas_def)

text \<open>
  X4. Text inside a region is split at whitespace and joined again with single spaces.
  Inside a value region only (\<open>pv\<close>) it is added to the value buffer, after \<^verbatim>\<open> / \<close> when the
  buffer holds something; inside a key region only (\<open>pk\<close>) it is added to the key buffer
  without its trailing colons. Text that is whitespace only changes nothing inside a
  region, and no text changes anything outside the regions (\<open>po\<close>).
\<close>

theorem text_fragments:
  "(within_v_tag pv \<and> \<not> within_k_tag pv \<and> join '' '' (split d) \<noteq> [] \<longrightarrow>
      handle_data pv d =
        pv\<lparr>current_value :=
             (if current_value pv = [] then [] else current_value pv @ '' / '')
             @ join '' '' (split d)\<rparr>)
   \<and> (within_k_tag pk \<and> \<not> within_v_tag pk \<and> join '' '' (split d) \<noteq> [] \<longrightarrow>
        handle_data pk d =
          pk\<lparr>current_key := current_key pk @ rstrip_colon (join '' '' (split d))\<rparr>)
   \<and> ((within_k_tag p \<or> within_v_tag p) \<and> join '' '' (split d') = [] \<longrightarrow>
        handle_data p d' = p)
   \<and> (\<not> within_k_tag po \<and> \<not> within_v_tag po \<longrightarrow> handle_data po d = po)"
  by (simp add: handle_data_def Let_def)

text \<open>The theorem at a value region that holds \<^verbatim>\<open>Cervantes\<close> and at an empty key region,
  for a text with a line break and runs of spaces.\<close>

theorem text_fragments_witness:
  "handle_data
     \<lparr>within_k_tag = False, within_v_tag = True, k_class = ''auth'', v_class = ''titn'',
      current_key = ''Autor'', current_value = ''Cervantes'', retrieved_metadata = []\<rparr>
     (''  Miguel '' @ [CHR 0x0A] @ ''  de  '')
   = \<lparr>within_k_tag = False, within_v_tag = True, k_class = ''auth'', v_class = ''titn'',
      current_key = ''Autor'', current_value = ''Cervantes / Miguel de'',
      retrieved_metadata = []\<rparr>
   \<and> handle_data
     \<lparr>within_k_tag = True, within_v_tag = False, k_class = ''auth'', v_class = ''titn'',
      current_key = [], current_value = [], retrieved_metadata = []\<rparr>
     (''  Miguel '' @ [CHR 0x0A] @ ''  de  '')
   = \<lparr>within_k_tag = True, within_v_tag = False, k_class = ''auth'', v_class = ''titn'',
      current_key = ''Miguel de'', current_value = [], retrieved_metadata = []\<rparr>"
proof -
  let ?pv = "\<lparr>within_k_tag = False, within_v_tag = True, k_class = ''auth'',
      v_class = ''titn'', current_key = ''Autor'', current_value = ''Cervantes'',
      retrieved_metadata = []\<rparr>"
  let ?pk = "\<lparr>within_k_tag = True, within_v_tag = False, k_class = ''auth'',
      v_class = ''titn'', current_key = [], current_value = [], retrieved_metadata = []\<rparr>"
  let ?po = "LibraryCatalogueHTMLParser ''auth'' ''titn''"
  let ?d = "''  Miguel '' @ [CHR 0x0A] @ ''  de  ''"
  have j: "join '' '' (split ?d) = ''Miguel de''" by code_simp
  have j': "join '' '' (split ''   '') = []" by code_simp
  have r: "rstrip_colon ''Miguel de'' = ''Miguel de''" by code_simp
  have o: "\<not> within_k_tag ?po \<and> \<not> within_v_tag ?po" by code_simp
  from text_fragments [of ?pv ?d ?pk ?pv "''   ''" ?po] j j' r o show ?thesis by simp
qed

text \<open>
  X5. A value with a control character that the worksheet refuses ends the run when the
  sink is the spreadsheet: \<^verbatim>\<open>add_metadata\<close> raises \<^verbatim>\<open>IllegalCharacterError\<close>, which the loop
  does not catch, so no failure is recorded and the record that follows is not processed.
  With the text sink the same records are written.
\<close>

theorem control_character_aborts_run:
  "main_loop control_lib
     (main_init (Excel (SkimmedExcel [((1, 1), ''URI''), ((3, 1), item_uri)])))
     [(3, item_uri), (4, item_uri)]
   = Inl IllegalCharacterError
   \<and> (case main_loop control_lib (main_init (Text [])) [(3, item_uri), (4, item_uri)] of
        Inl e \<Rightarrow> False
      | Inr st \<Rightarrow> bad_uris st = [] \<and> map fst (sink_calls st) = [3, 4])"
  by code_simp

text \<open>
  X6. Two forms of body in which the declarations are found. After bytes where no tag with
  a name in m opens, the open tag \<^verbatim>\<open><meta http-equiv="content-type"\<close> in any case of the
  letters, then on the same line \<^verbatim>\<open>charset=\<close> in any case, a name and a double quote, with
  no equals sign in the name or in the rest of the line: the charset is that name. After
  such bytes, \<^verbatim>\<open><meta charset=\<close> in any case, a double quote, a name and a double quote, in
  a body where the first pattern matches nowhere: the charset is that name.
\<close>

theorem charset_declaration_forms:
  "(no_m_tag p1
        \<and> map lower_ascii t1 = ''<meta http-equiv='' @ [dquote] @ ''content-type'' @ [dquote]
        \<and> CHR 0x0A \<notin> set mid \<and> map lower_ascii cs = ''charset=''
        \<and> n1 \<noteq> [] \<and> dquote \<notin> set n1
        \<and> CHR ''='' \<notin> set (takeWhile (\<lambda>c. c \<noteq> CHR 0x0A) (n1 @ [dquote] @ e1)) \<longrightarrow>
        determine_charset None (p1 @ t1 @ mid @ cs @ n1 @ [dquote] @ e1) = decode_ascii n1)
   \<and> (no_m_tag p2 \<and> map lower_ascii t2 = ''<meta charset='' \<and> n2 \<noteq> [] \<and> dquote \<notin> set n2
        \<and> (\<forall>i k n. \<not> content_type_match (p2 @ t2 @ [dquote] @ n2 @ [dquote] @ e2) i k n) \<longrightarrow>
        determine_charset None (p2 @ t2 @ [dquote] @ n2 @ [dquote] @ e2) = decode_ascii n2)"
proof -
  have c7: "no_m_tag p1
        \<and> map lower_ascii t1 = ''<meta http-equiv='' @ [dquote] @ ''content-type'' @ [dquote]
        \<and> CHR 0x0A \<notin> set mid \<and> map lower_ascii cs = ''charset=''
        \<and> n1 \<noteq> [] \<and> dquote \<notin> set n1
        \<and> CHR ''='' \<notin> set (takeWhile (\<lambda>c. c \<noteq> CHR 0x0A) (n1 @ [dquote] @ e1)) \<longrightarrow>
        determine_charset None (p1 @ t1 @ mid @ cs @ n1 @ [dquote] @ e1) = decode_ascii n1"
  proof (intro impI, elim conjE)
    assume "no_m_tag p1"
      "map lower_ascii t1 = ''<meta http-equiv='' @ [dquote] @ ''content-type'' @ [dquote]"
      "CHR 0x0A \<notin> set mid" "map lower_ascii cs = ''charset=''" "n1 \<noteq> []" "dquote \<notin> set n1"
      "CHR ''='' \<notin> set (takeWhile (\<lambda>c. c \<noteq> CHR 0x0A) (n1 @ [dquote] @ e1))"
    then have "search_content_type (p1 @ t1 @ mid @ cs @ n1 @ [dquote] @ e1) = Some n1"
      by (rule search_content_type_form)
    then show "determine_charset None (p1 @ t1 @ mid @ cs @ n1 @ [dquote] @ e1)
        = decode_ascii n1"
      by (simp only: determine_charset_def option.simps)
  qed
  have c8: "no_m_tag p2 \<and> map lower_ascii t2 = ''<meta charset='' \<and> n2 \<noteq> [] \<and> dquote \<notin> set n2
        \<and> (\<forall>i k n. \<not> content_type_match (p2 @ t2 @ [dquote] @ n2 @ [dquote] @ e2) i k n) \<longrightarrow>
        determine_charset None (p2 @ t2 @ [dquote] @ n2 @ [dquote] @ e2) = decode_ascii n2"
  proof (intro impI, elim conjE)
    assume a: "no_m_tag p2" "map lower_ascii t2 = ''<meta charset=''" "n2 \<noteq> []"
      "dquote \<notin> set n2"
      and n: "\<forall>i k n. \<not> content_type_match (p2 @ t2 @ [dquote] @ n2 @ [dquote] @ e2) i k n"
    from a have "search_meta_charset (p2 @ t2 @ [dquote] @ n2 @ [dquote] @ e2) = Some n2"
      by (rule search_meta_charset_form)
    moreover from n have "search_content_type (p2 @ t2 @ [dquote] @ n2 @ [dquote] @ e2) = None"
      unfolding search_content_type_None_iff .
    ultimately show "determine_charset None (p2 @ t2 @ [dquote] @ n2 @ [dquote] @ e2)
        = decode_ascii n2"
      by (simp only: determine_charset_def option.simps)
  qed
  from c7 c8 show ?thesis by (intro conjI)
qed

text \<open>The theorem at a body whose first line has the \<^verbatim>\<open>content-type\<close> declaration with
  \<^verbatim>\<open>utf-8\<close> and whose second line has a \<^verbatim>\<open>meta charset\<close> declaration with another name,
  and at a body with a \<^verbatim>\<open>meta charset\<close> declaration in capitals after two other tags.\<close>

theorem charset_declaration_forms_witness:
  "determine_charset None (body page_two_lines) = Inr ''utf-8''
   \<and> determine_charset None (body page_capitals) = Inr ''UTF-8''"
proof -
  have d1: "decode_ascii ''utf-8'' = Inr ''utf-8''" "decode_ascii ''UTF-8'' = Inr ''UTF-8''"
    by code_simp+
  have b1: "body page_two_lines
      = ''<html><head>'' @ (''<META http-equiv='' @ [dquote] @ ''Content-Type'' @ [dquote])
        @ ('' content='' @ [dquote] @ ''text/html; '') @ ''Charset='' @ ''utf-8'' @ [dquote]
        @ (''>'' @ [CHR 0x0A] @ ''<meta charset='' @ [dquote] @ ''ascii'' @ [dquote] @ ''>'')"
    by code_simp
  have f1: "no_m_tag ''<html><head>''" by code_simp
  have f2: "map lower_ascii (''<META http-equiv='' @ [dquote] @ ''Content-Type'' @ [dquote])
      = ''<meta http-equiv='' @ [dquote] @ ''content-type'' @ [dquote]" by code_simp
  have f3: "CHR 0x0A \<notin> set ('' content='' @ [dquote] @ ''text/html; '')" by code_simp
  have f4: "map lower_ascii ''Charset='' = ''charset=''" by code_simp
  have f5: "''utf-8'' \<noteq> []" by simp
  have f6: "dquote \<notin> set ''utf-8''" by code_simp
  have f7: "CHR ''='' \<notin> set (takeWhile (\<lambda>c. c \<noteq> CHR 0x0A) (''utf-8'' @ [dquote]
        @ (''>'' @ [CHR 0x0A] @ ''<meta charset='' @ [dquote] @ ''ascii'' @ [dquote] @ ''>'')))"
    by code_simp
  have b2: "body page_capitals
      = ''<html><head>'' @ ''<META CHARSET='' @ [dquote] @ ''UTF-8'' @ [dquote]
        @ ''></head>''"
    by code_simp
  have g2: "map lower_ascii ''<META CHARSET='' = ''<meta charset=''" by code_simp
  have g3: "''UTF-8'' \<noteq> []" by simp
  have g4: "dquote \<notin> set ''UTF-8''" by code_simp
  have "search_content_type (body page_capitals) = None" by code_simp
  then have g5: "\<forall>i k n. \<not> content_type_match (''<html><head>'' @ ''<META CHARSET='' @ [dquote]
        @ ''UTF-8'' @ [dquote] @ ''></head>'') i k n"
    unfolding b2 search_content_type_None_iff .
  note t = charset_declaration_forms [where ?p1.0 = "''<html><head>''"
       and ?t1.0 = "''<META http-equiv='' @ [dquote] @ ''Content-Type'' @ [dquote]"
       and mid = "'' content='' @ [dquote] @ ''text/html; ''" and cs = "''Charset=''"
       and ?n1.0 = "''utf-8''"
       and ?e1.0 = "''>'' @ [CHR 0x0A] @ ''<meta charset='' @ [dquote] @ ''ascii'' @ [dquote] @ ''>''"
       and ?p2.0 = "''<html><head>''" and ?t2.0 = "''<META CHARSET=''" and ?n2.0 = "''UTF-8''"
       and ?e2.0 = "''></head>''"]
  have "determine_charset None (body page_two_lines) = decode_ascii ''utf-8''"
    unfolding b1 by (rule t [THEN conjunct1, THEN mp]) (intro conjI f1 f2 f3 f4 f5 f6 f7)
  then have r6: "determine_charset None (body page_two_lines) = Inr ''utf-8''"
    unfolding d1 .
  have "determine_charset None (body page_capitals) = decode_ascii ''UTF-8''"
    unfolding b2 by (rule t [THEN conjunct2, THEN mp]) (intro conjI f1 g2 g3 g4 g5)
  then have r7: "determine_charset None (body page_capitals) = Inr ''UTF-8''"
    unfolding d1 .
  from r6 r7 show ?thesis by (intro conjI)
qed

end
